theory Spec2Isabelle
  imports
    Main
    "HOL-Library.Word"
    "HOL-Library.Signed_Division"
    "HOL-Library.Monad_Syntax"
    "HOL-Library.AList"
begin

section \<open>Primitive types of the host language\<close>

text \<open>
  Go's \<open>int64\<close> is a 64-bit word: \<open>+\<close>, \<open>-\<close> and \<open>*\<close> wrap around, comparisons read the
  word as two's complement (\<open>sint\<close>). Go's \<open>/\<close> and \<open>%\<close> truncate towards zero; the most
  negative value divided by \<open>-1\<close> wraps to itself and leaves remainder \<open>0\<close>. Both panic on a
  zero divisor, which the callers below write out.
\<close>

type_synonym int64 = "64 word"

definition int64_quo :: "int64 \<Rightarrow> int64 \<Rightarrow> int64" where
  "int64_quo a b = word_of_int (sint a sdiv sint b)"

definition int64_rem :: "int64 \<Rightarrow> int64 \<Rightarrow> int64" where
  "int64_rem a b = word_of_int (sint a smod sint b)"

text \<open>
  Go's \<open>float64\<close> and the functions of package \<open>math\<close> are not part of the repository.
  The model is parametric in them: \<open>'f\<close> is the type of float64 values and a record of
  this type supplies the conversions, the arithmetic and the comparisons the source uses.
  Every theorem below holds for whatever arithmetic the record carries, IEEE-754 included.
\<close>

record 'f float64_ops =
  f_of_int64 :: "int64 \<Rightarrow> 'f"              \<comment> \<open>the conversion \<open>float64(i)\<close>\<close>
  f_to_int64 :: "'f \<Rightarrow> int64"              \<comment> \<open>the conversion \<open>int64(x)\<close>\<close>
  f_add :: "'f \<Rightarrow> 'f \<Rightarrow> 'f"
  f_sub :: "'f \<Rightarrow> 'f \<Rightarrow> 'f"
  f_mul :: "'f \<Rightarrow> 'f \<Rightarrow> 'f"
  f_quo :: "'f \<Rightarrow> 'f \<Rightarrow> 'f"
  f_pow :: "'f \<Rightarrow> 'f \<Rightarrow> 'f"                \<comment> \<open>\<open>math.Pow\<close>\<close>
  f_neg :: "'f \<Rightarrow> 'f"
  f_eq :: "'f \<Rightarrow> 'f \<Rightarrow> bool"               \<comment> \<open>\<open>==\<close> on float64\<close>
  f_lt :: "'f \<Rightarrow> 'f \<Rightarrow> bool"               \<comment> \<open>\<open><\<close>; \<open>x > y\<close> is \<open>f_lt y x\<close>\<close>
  f_le :: "'f \<Rightarrow> 'f \<Rightarrow> bool"               \<comment> \<open>\<open><=\<close>; \<open>x >= y\<close> is \<open>f_le y x\<close>\<close>

text \<open>The untyped constant \<open>0\<close> compared with a float64 is the float64 zero.\<close>

definition f_is_zero :: "'f float64_ops \<Rightarrow> 'f \<Rightarrow> bool" where
  "f_is_zero F x = f_eq F x (f_of_int64 F 0)"

section \<open>Data model\<close>

datatype VMValueType =
    VMTypeInt
  | VMTypeFloat
  | VMTypeString
  | VMTypeUndefined
  | VMTypeNull
  | VMTypeComputedValue
  | VMTypeArray
  | VMTypeFunction
  | VMTypeNativeFunction

text \<open>
  Pointers are addresses into an explicit store. The field \<open>Value interface{}\<close> of a
  \<open>VMValue\<close> holds a dynamically typed payload: nothing, an int64, a float64, a string, or a
  pointer to an \<open>ArrayData\<close>, \<open>ComputedData\<close>, \<open>FunctionData\<close> or \<open>NativeFunctionData\<close>.
\<close>

type_synonym ptr = nat

datatype 'f iface =
    NilValue
  | Int64Value int64
  | Float64Value 'f
  | StringValue string
  | ArrayDataPtr ptr
  | ComputedDataPtr ptr
  | FunctionDataPtr ptr
  | NativeFunctionDataPtr ptr

record 'f VMValue =
  TypeId :: VMValueType
  Value :: "'f iface"

text \<open>The type \<open>ByteCode\<close> is declared outside the file; a nil slice is \<open>None\<close>.\<close>

typedecl ByteCode

record ComputedData =
  cd_Expr :: string
  cd_Attrs :: "ptr option"                 \<comment> \<open>\<open>*ValueMap\<close>, nil until the first attribute is set\<close>
  cd_code :: "ByteCode list option"
  cd_codeIndex :: int

record FunctionData =
  fd_Expr :: string
  fd_Name :: string
  fd_Params :: "string list"
  fd_code :: "ByteCode list option"
  fd_codeIndex :: int

record RollExtraFlags =
  DiceMinMode :: bool
  DiceMaxMode :: bool
  DisableLoadVarname :: bool
  IgnoreDiv0 :: bool                        \<comment> \<open>source comment: on division by zero, do not report an error for now\<close>
  DefaultDiceSideNum :: int64
  DefaultDiceSideExpr :: string
  PrintBytecode :: bool

text \<open>
  The source builds its errors with \<open>errors.New\<close> from message strings; there is one
  constructor per message of the file, and \<open>ExternalError\<close> for errors raised by code outside
  it (the parser and the interpreter loop).
\<close>

datatype vm_error =
    DivideByZero          \<comment> \<open>division by zero\<close>
  | ArrayTooLarge         \<comment> \<open>cannot create an overlong array in one go\<close>
  | IndexOutOfRange       \<comment> \<open>cannot get this index\<close>
  | CannotIndex           \<comment> \<open>this type cannot be indexed\<close>
  | CannotSlice           \<comment> \<open>this type cannot be sliced\<close>
  | FirstValueType        \<comment> \<open>the first value has the wrong type\<close>
  | SecondValueType       \<comment> \<open>the second value has the wrong type\<close>
  | CannotAssignSlice     \<comment> \<open>this type cannot be assigned a slice\<close>
  | ValueNotList          \<comment> \<open>the type of val must be a list\<close>
  | ArityMismatch         \<comment> \<open>argument count differs from the function definition\<close>
  | ExternalError string

text \<open>
  The evaluation frame. The fields \<open>parser\<close>, \<open>ValueStoreNameFunc\<close> and \<open>ValueLoadNameFunc\<close>
  are only copied from frame to frame by the functions of the file and are left out. The
  operand stack holds values, not pointers.
\<close>

record 'f Context =
  currentThis :: "ptr option"
  subThreadDepth :: int
  attrs :: "ptr option"
  code :: "ByteCode list option"
  codeIndex :: int
  stack :: "'f VMValue list"
  top :: int
  NumOpCount :: int64
  Flags :: RollExtraFlags
  Error :: "vm_error option"

text \<open>
  The store. A \<open>*VMValue\<close> is an address of \<open>cells\<close>, a \<open>*ArrayData\<close> an address of \<open>arrays\<close>
  (its field \<open>List\<close>, a sequence of \<open>*VMValue\<close>), and so on; \<open>next_ptr\<close> is the next unused
  address. A \<open>ValueMap\<close> is kept as an association list in insertion order.
\<close>

record 'f heap =
  cells :: "ptr \<Rightarrow> 'f VMValue"
  arrays :: "ptr \<Rightarrow> ptr list"
  computeds :: "ptr \<Rightarrow> ComputedData"
  funcdatas :: "ptr \<Rightarrow> FunctionData"
  valuemaps :: "ptr \<Rightarrow> (string \<times> ptr) list"
  next_ptr :: ptr

text \<open>
  A function of the source that takes a \<open>*Context\<close> and returns a \<open>*VMValue\<close> becomes a
  function from the frame and the store to the returned pointer (\<open>None\<close> is \<open>nil\<close>), the
  frame and the store afterwards. The outer \<open>option\<close> is \<open>None\<close> where Go panics at run
  time (a failed type assertion, an index out of range, an integer division by zero).
\<close>

type_synonym 'f outcome = "(ptr option \<times> 'f Context \<times> 'f heap) option"

subsection \<open>Allocation and constructors\<close>

definition new_cell :: "'f heap \<Rightarrow> 'f VMValue \<Rightarrow> ptr \<times> 'f heap" where
  "new_cell h val =
     (next_ptr h, h\<lparr>cells := (cells h)(next_ptr h := val), next_ptr := Suc (next_ptr h)\<rparr>)"

definition VMValueNewInt :: "'f heap \<Rightarrow> int64 \<Rightarrow> ptr \<times> 'f heap" where
  "VMValueNewInt h i = new_cell h \<lparr>TypeId = VMTypeInt, Value = Int64Value i\<rparr>"

definition VMValueNewFloat :: "'f heap \<Rightarrow> 'f \<Rightarrow> ptr \<times> 'f heap" where
  "VMValueNewFloat h i = new_cell h \<lparr>TypeId = VMTypeFloat, Value = Float64Value i\<rparr>"

definition VMValueNewStr :: "'f heap \<Rightarrow> string \<Rightarrow> ptr \<times> 'f heap" where
  "VMValueNewStr h s = new_cell h \<lparr>TypeId = VMTypeString, Value = StringValue s\<rparr>"

definition VMValueNewUndefined :: "'f heap \<Rightarrow> ptr \<times> 'f heap" where
  "VMValueNewUndefined h = new_cell h \<lparr>TypeId = VMTypeUndefined, Value = NilValue\<rparr>"

definition VMValueNewNull :: "'f heap \<Rightarrow> ptr \<times> 'f heap" where
  "VMValueNewNull h = new_cell h \<lparr>TypeId = VMTypeNull, Value = NilValue\<rparr>"

text \<open>\<open>VMValueNewArray\<close> appends its arguments to a fresh slice held by a fresh \<open>ArrayData\<close>.\<close>

definition VMValueNewArray :: "'f heap \<Rightarrow> ptr list \<Rightarrow> ptr \<times> 'f heap" where
  "VMValueNewArray h vals =
     (let a = next_ptr h;
          h1 = h\<lparr>arrays := (arrays h)(a := vals), next_ptr := Suc a\<rparr>
      in new_cell h1 \<lparr>TypeId = VMTypeArray, Value = ArrayDataPtr a\<rparr>)"

definition VMValueNewComputed :: "'f heap \<Rightarrow> string \<Rightarrow> ptr \<times> 'f heap" where
  "VMValueNewComputed h expr =
     (let c = next_ptr h;
          h1 = h\<lparr>computeds := (computeds h)
                 (c := \<lparr>cd_Expr = expr, cd_Attrs = None, cd_code = None, cd_codeIndex = 0\<rparr>),
               next_ptr := Suc c\<rparr>
      in new_cell h1 \<lparr>TypeId = VMTypeComputedValue, Value = ComputedDataPtr c\<rparr>)"

definition returning :: "'f Context \<Rightarrow> ptr \<times> 'f heap \<Rightarrow> 'f outcome" where
  "returning ctx r = Some (Some (fst r), ctx, snd r)"

subsection \<open>Type assertions\<close>

text \<open>\<open>x.(T)\<close> panics when the dynamic type of \<open>x\<close> is not \<open>T\<close>.\<close>

fun assert_int64 :: "'f iface \<Rightarrow> int64 option" where
  "assert_int64 (Int64Value i) = Some i"
| "assert_int64 _ = None"

fun assert_float64 :: "'f iface \<Rightarrow> 'f option" where
  "assert_float64 (Float64Value x) = Some x"
| "assert_float64 _ = None"

fun assert_string :: "'f iface \<Rightarrow> string option" where
  "assert_string (StringValue s) = Some s"
| "assert_string _ = None"

fun assert_ArrayData :: "'f iface \<Rightarrow> ptr option" where
  "assert_ArrayData (ArrayDataPtr p) = Some p"
| "assert_ArrayData _ = None"

fun assert_ComputedData :: "'f iface \<Rightarrow> ptr option" where
  "assert_ComputedData (ComputedDataPtr p) = Some p"
| "assert_ComputedData _ = None"


subsection \<open>Readers\<close>

text \<open>
  \<open>ReadArray\<close>, \<open>ReadComputed\<close> and \<open>ReadFunctionData\<close> return the payload pointer when the
  tag fits (asserting the payload's dynamic type) and \<open>nil\<close> otherwise. The callers ignore
  the flag and dereference the pointer; dereferencing \<open>nil\<close> panics, which binding the
  inner \<open>option\<close> expresses.
\<close>

definition ReadInt :: "'f heap \<Rightarrow> ptr \<Rightarrow> (int64 \<times> bool) option" where
  "ReadInt h v =
     (if TypeId (cells h v) = VMTypeInt
      then map_option (\<lambda>i. (i, True)) (assert_int64 (Value (cells h v)))
      else Some (0, False))"


definition ReadArray :: "'f heap \<Rightarrow> ptr \<Rightarrow> (ptr option \<times> bool) option" where
  "ReadArray h v =
     (if TypeId (cells h v) = VMTypeArray
      then map_option (\<lambda>p. (Some p, True)) (assert_ArrayData (Value (cells h v)))
      else Some (None, False))"

definition ReadComputed :: "'f heap \<Rightarrow> ptr \<Rightarrow> (ptr option \<times> bool) option" where
  "ReadComputed h v =
     (if TypeId (cells h v) = VMTypeComputedValue
      then map_option (\<lambda>p. (Some p, True)) (assert_ComputedData (Value (cells h v)))
      else Some (None, False))"


subsection \<open>Clone\<close>

text \<open>A fresh cell with the tag and the payload of the receiver; the \<open>switch\<close> is empty.\<close>

definition Clone :: "'f heap \<Rightarrow> ptr \<Rightarrow> ptr \<times> 'f heap" where
  "Clone h v = new_cell h \<lparr>TypeId = TypeId (cells h v), Value = Value (cells h v)\<rparr>"

fun clone_each :: "'f heap \<Rightarrow> ptr list \<Rightarrow> ptr list \<times> 'f heap" where
  "clone_each h [] = ([], h)"
| "clone_each h (p # ps) =
     (let (q, h1) = Clone h p; (qs, h2) = clone_each h1 ps in (q # qs, h2))"

subsection \<open>Array repetition\<close>

text \<open>
  \<open>length\<close> is an int64 product and wraps; \<open>make\<close> panics on a negative length. The loop
  clones \<open>ad.List[i % len(ad.List)]\<close> for \<open>i\<close> from \<open>0\<close> below \<open>length\<close>; it runs only when
  \<open>length\<close> is positive, and then the list is not empty.
\<close>

definition ArrayRepeatTimesEx :: "'f Context \<Rightarrow> 'f heap \<Rightarrow> ptr \<Rightarrow> ptr \<Rightarrow> 'f outcome" where
  "ArrayRepeatTimesEx ctx h v tms =
     (case TypeId (cells h tms) of
        VMTypeInt \<Rightarrow> do {
          (n, _) \<leftarrow> ReadInt h tms;
          (ad, _) \<leftarrow> ReadArray h v;
          a \<leftarrow> ad;
          let xs = arrays h a;
          let len = (word_of_nat (length xs) :: int64) * n;
          if 512 < sint len then Some (None, ctx\<lparr>Error := Some ArrayTooLarge\<rparr>, h)
          else if sint len < 0 then None
          else (let (arr, h1) = clone_each h (map (\<lambda>i. xs ! (i mod length xs)) [0..<nat (sint len)])
                in returning ctx (VMValueNewArray h1 arr))
        }
      | _ \<Rightarrow> Some (None, ctx, h))"

section \<open>Arithmetic operators\<close>

definition OpAdd :: "'f float64_ops \<Rightarrow> 'f Context \<Rightarrow> 'f heap \<Rightarrow> ptr \<Rightarrow> ptr \<Rightarrow> 'f outcome" where
  "OpAdd F ctx h v v2 =
     (case TypeId (cells h v) of
        VMTypeInt \<Rightarrow>
          (case TypeId (cells h v2) of
             VMTypeInt \<Rightarrow> do {
               a \<leftarrow> assert_int64 (Value (cells h v));
               b \<leftarrow> assert_int64 (Value (cells h v2));
               returning ctx (VMValueNewInt h (a + b)) }
           | VMTypeFloat \<Rightarrow> do {
               a \<leftarrow> assert_int64 (Value (cells h v));
               b \<leftarrow> assert_float64 (Value (cells h v2));
               returning ctx (VMValueNewFloat h (f_add F (f_of_int64 F a) b)) }
           | _ \<Rightarrow> Some (None, ctx, h))
      | VMTypeFloat \<Rightarrow>
          (case TypeId (cells h v2) of
             VMTypeInt \<Rightarrow> do {
               a \<leftarrow> assert_float64 (Value (cells h v));
               b \<leftarrow> assert_int64 (Value (cells h v2));
               returning ctx (VMValueNewFloat h (f_add F a (f_of_int64 F b))) }
           | VMTypeFloat \<Rightarrow> do {
               a \<leftarrow> assert_float64 (Value (cells h v));
               b \<leftarrow> assert_float64 (Value (cells h v2));
               returning ctx (VMValueNewFloat h (f_add F a b)) }
           | _ \<Rightarrow> Some (None, ctx, h))
      | VMTypeString \<Rightarrow>
          (case TypeId (cells h v2) of
             VMTypeString \<Rightarrow> do {
               a \<leftarrow> assert_string (Value (cells h v));
               b \<leftarrow> assert_string (Value (cells h v2));
               returning ctx (VMValueNewStr h (a @ b)) }
           | _ \<Rightarrow> Some (None, ctx, h))
      | VMTypeArray \<Rightarrow>
          (case TypeId (cells h v2) of
             VMTypeArray \<Rightarrow> do {
               (arr, _) \<leftarrow> ReadArray h v;
               (arr2, _) \<leftarrow> ReadArray h v2;
               a \<leftarrow> arr;
               a2 \<leftarrow> arr2;
               if 512 < length (arrays h a) + length (arrays h a2)
               then Some (None, ctx\<lparr>Error := Some ArrayTooLarge\<rparr>, h)
               else returning ctx (VMValueNewArray h (arrays h a @ arrays h a2)) }
           | _ \<Rightarrow> Some (None, ctx, h))
      | _ \<Rightarrow> Some (None, ctx, h))"

definition OpSub :: "'f float64_ops \<Rightarrow> 'f Context \<Rightarrow> 'f heap \<Rightarrow> ptr \<Rightarrow> ptr \<Rightarrow> 'f outcome" where
  "OpSub F ctx h v v2 =
     (case TypeId (cells h v) of
        VMTypeInt \<Rightarrow>
          (case TypeId (cells h v2) of
             VMTypeInt \<Rightarrow> do {
               a \<leftarrow> assert_int64 (Value (cells h v));
               b \<leftarrow> assert_int64 (Value (cells h v2));
               returning ctx (VMValueNewInt h (a - b)) }
           | VMTypeFloat \<Rightarrow> do {
               a \<leftarrow> assert_int64 (Value (cells h v));
               b \<leftarrow> assert_float64 (Value (cells h v2));
               returning ctx (VMValueNewFloat h (f_sub F (f_of_int64 F a) b)) }
           | _ \<Rightarrow> Some (None, ctx, h))
      | VMTypeFloat \<Rightarrow>
          (case TypeId (cells h v2) of
             VMTypeInt \<Rightarrow> do {
               a \<leftarrow> assert_float64 (Value (cells h v));
               b \<leftarrow> assert_int64 (Value (cells h v2));
               returning ctx (VMValueNewFloat h (f_sub F a (f_of_int64 F b))) }
           | VMTypeFloat \<Rightarrow> do {
               a \<leftarrow> assert_float64 (Value (cells h v));
               b \<leftarrow> assert_float64 (Value (cells h v2));
               returning ctx (VMValueNewFloat h (f_sub F a b)) }
           | _ \<Rightarrow> Some (None, ctx, h))
      | _ \<Rightarrow> Some (None, ctx, h))"

definition OpMultiply :: "'f float64_ops \<Rightarrow> 'f Context \<Rightarrow> 'f heap \<Rightarrow> ptr \<Rightarrow> ptr \<Rightarrow> 'f outcome" where
  "OpMultiply F ctx h v v2 =
     (case TypeId (cells h v) of
        VMTypeInt \<Rightarrow>
          (case TypeId (cells h v2) of
             VMTypeInt \<Rightarrow> do {
               a \<leftarrow> assert_int64 (Value (cells h v));
               b \<leftarrow> assert_int64 (Value (cells h v2));
               returning ctx (VMValueNewInt h (a * b)) }
           | VMTypeFloat \<Rightarrow> do {
               a \<leftarrow> assert_int64 (Value (cells h v));
               b \<leftarrow> assert_float64 (Value (cells h v2));
               returning ctx (VMValueNewFloat h (f_mul F (f_of_int64 F a) b)) }
           | VMTypeArray \<Rightarrow> ArrayRepeatTimesEx ctx h v2 v
           | _ \<Rightarrow> Some (None, ctx, h))
      | VMTypeFloat \<Rightarrow>
          (case TypeId (cells h v2) of
             VMTypeInt \<Rightarrow> do {
               a \<leftarrow> assert_float64 (Value (cells h v));
               b \<leftarrow> assert_int64 (Value (cells h v2));
               returning ctx (VMValueNewFloat h (f_mul F a (f_of_int64 F b))) }
           | VMTypeFloat \<Rightarrow> do {
               a \<leftarrow> assert_float64 (Value (cells h v));
               b \<leftarrow> assert_float64 (Value (cells h v2));
               returning ctx (VMValueNewFloat h (f_mul F a b)) }
           | _ \<Rightarrow> Some (None, ctx, h))
      | VMTypeArray \<Rightarrow> ArrayRepeatTimesEx ctx h v v2
      | _ \<Rightarrow> Some (None, ctx, h))"

text \<open>
  \<open>setDivideZero\<close> stores the error in the frame whatever the flags are; \<open>OpDivide\<close> never
  reads \<open>ctx.Flags\<close>.
\<close>

definition setDivideZero :: "'f Context \<Rightarrow> 'f Context" where
  "setDivideZero ctx = ctx\<lparr>Error := Some DivideByZero\<rparr>"

definition OpDivide :: "'f float64_ops \<Rightarrow> 'f Context \<Rightarrow> 'f heap \<Rightarrow> ptr \<Rightarrow> ptr \<Rightarrow> 'f outcome" where
  "OpDivide F ctx h v v2 =
     (case TypeId (cells h v) of
        VMTypeInt \<Rightarrow>
          (case TypeId (cells h v2) of
             VMTypeInt \<Rightarrow> do {
               b \<leftarrow> assert_int64 (Value (cells h v2));
               if b = 0 then Some (None, setDivideZero ctx, h)
               else do {
                 a \<leftarrow> assert_int64 (Value (cells h v));
                 returning ctx (VMValueNewInt h (int64_quo a b)) } }
           | VMTypeFloat \<Rightarrow> do {
               b \<leftarrow> assert_float64 (Value (cells h v2));
               if f_is_zero F b then Some (None, setDivideZero ctx, h)
               else do {
                 a \<leftarrow> assert_int64 (Value (cells h v));
                 returning ctx (VMValueNewFloat h (f_quo F (f_of_int64 F a) b)) } }
           | _ \<Rightarrow> Some (None, ctx, h))
      | VMTypeFloat \<Rightarrow>
          (case TypeId (cells h v2) of
             VMTypeInt \<Rightarrow> do {
               b \<leftarrow> assert_int64 (Value (cells h v2));
               if b = 0 then Some (None, setDivideZero ctx, h)
               else do {
                 a \<leftarrow> assert_float64 (Value (cells h v));
                 returning ctx (VMValueNewFloat h (f_quo F a (f_of_int64 F b))) } }
           | VMTypeFloat \<Rightarrow> do {
               b \<leftarrow> assert_float64 (Value (cells h v2));
               if f_is_zero F b then Some (None, setDivideZero ctx, h)
               else do {
                 a \<leftarrow> assert_float64 (Value (cells h v));
                 returning ctx (VMValueNewFloat h (f_quo F a b)) } }
           | _ \<Rightarrow> Some (None, ctx, h))
      | _ \<Rightarrow> Some (None, ctx, h))"

text \<open>
  \<open>OpModulus\<close> evaluates \<open>a % b\<close> with no test of \<open>b\<close>: Go panics with an integer division by
  zero when \<open>b\<close> is \<open>0\<close>.
\<close>

definition OpModulus :: "'f float64_ops \<Rightarrow> 'f Context \<Rightarrow> 'f heap \<Rightarrow> ptr \<Rightarrow> ptr \<Rightarrow> 'f outcome" where
  "OpModulus F ctx h v v2 =
     (case TypeId (cells h v) of
        VMTypeInt \<Rightarrow>
          (case TypeId (cells h v2) of
             VMTypeInt \<Rightarrow> do {
               a \<leftarrow> assert_int64 (Value (cells h v));
               b \<leftarrow> assert_int64 (Value (cells h v2));
               if b = 0 then None
               else returning ctx (VMValueNewInt h (int64_rem a b)) }
           | _ \<Rightarrow> Some (None, ctx, h))
      | _ \<Rightarrow> Some (None, ctx, h))"

definition OpPower :: "'f float64_ops \<Rightarrow> 'f Context \<Rightarrow> 'f heap \<Rightarrow> ptr \<Rightarrow> ptr \<Rightarrow> 'f outcome" where
  "OpPower F ctx h v v2 =
     (case TypeId (cells h v) of
        VMTypeInt \<Rightarrow>
          (case TypeId (cells h v2) of
             VMTypeInt \<Rightarrow> do {
               a \<leftarrow> assert_int64 (Value (cells h v));
               b \<leftarrow> assert_int64 (Value (cells h v2));
               returning ctx (VMValueNewInt h (f_to_int64 F (f_pow F (f_of_int64 F a) (f_of_int64 F b)))) }
           | VMTypeFloat \<Rightarrow> do {
               a \<leftarrow> assert_int64 (Value (cells h v));
               b \<leftarrow> assert_float64 (Value (cells h v2));
               returning ctx (VMValueNewFloat h (f_pow F (f_of_int64 F a) b)) }
           | _ \<Rightarrow> Some (None, ctx, h))
      | VMTypeFloat \<Rightarrow>
          (case TypeId (cells h v2) of
             VMTypeInt \<Rightarrow> do {
               a \<leftarrow> assert_float64 (Value (cells h v));
               b \<leftarrow> assert_int64 (Value (cells h v2));
               returning ctx (VMValueNewFloat h (f_pow F a (f_of_int64 F b))) }
           | VMTypeFloat \<Rightarrow> do {
               a \<leftarrow> assert_float64 (Value (cells h v));
               b \<leftarrow> assert_float64 (Value (cells h v2));
               returning ctx (VMValueNewFloat h (f_pow F a b)) }
           | _ \<Rightarrow> Some (None, ctx, h))
      | _ \<Rightarrow> Some (None, ctx, h))"

section \<open>Comparison operators\<close>

definition boolToVMValue :: "'f heap \<Rightarrow> bool \<Rightarrow> ptr \<times> 'f heap" where
  "boolToVMValue h b = VMValueNewInt h (if b then 1 else 0)"

definition OpCompLT :: "'f float64_ops \<Rightarrow> 'f Context \<Rightarrow> 'f heap \<Rightarrow> ptr \<Rightarrow> ptr \<Rightarrow> 'f outcome" where
  "OpCompLT F ctx h v v2 =
     (case TypeId (cells h v) of
        VMTypeInt \<Rightarrow>
          (case TypeId (cells h v2) of
             VMTypeInt \<Rightarrow> do {
               a \<leftarrow> assert_int64 (Value (cells h v));
               b \<leftarrow> assert_int64 (Value (cells h v2));
               returning ctx (boolToVMValue h (sint a < sint b)) }
           | VMTypeFloat \<Rightarrow> do {
               a \<leftarrow> assert_int64 (Value (cells h v));
               b \<leftarrow> assert_float64 (Value (cells h v2));
               returning ctx (boolToVMValue h (f_lt F (f_of_int64 F a) b)) }
           | _ \<Rightarrow> Some (None, ctx, h))
      | VMTypeFloat \<Rightarrow>
          (case TypeId (cells h v2) of
             VMTypeInt \<Rightarrow> do {
               a \<leftarrow> assert_float64 (Value (cells h v));
               b \<leftarrow> assert_int64 (Value (cells h v2));
               returning ctx (boolToVMValue h (f_lt F a (f_of_int64 F b))) }
           | VMTypeFloat \<Rightarrow> do {
               a \<leftarrow> assert_float64 (Value (cells h v));
               b \<leftarrow> assert_float64 (Value (cells h v2));
               returning ctx (boolToVMValue h (f_lt F a b)) }
           | _ \<Rightarrow> Some (None, ctx, h))
      | _ \<Rightarrow> Some (None, ctx, h))"

definition OpCompLE :: "'f float64_ops \<Rightarrow> 'f Context \<Rightarrow> 'f heap \<Rightarrow> ptr \<Rightarrow> ptr \<Rightarrow> 'f outcome" where
  "OpCompLE F ctx h v v2 =
     (case TypeId (cells h v) of
        VMTypeInt \<Rightarrow>
          (case TypeId (cells h v2) of
             VMTypeInt \<Rightarrow> do {
               a \<leftarrow> assert_int64 (Value (cells h v));
               b \<leftarrow> assert_int64 (Value (cells h v2));
               returning ctx (boolToVMValue h (sint a \<le> sint b)) }
           | VMTypeFloat \<Rightarrow> do {
               a \<leftarrow> assert_int64 (Value (cells h v));
               b \<leftarrow> assert_float64 (Value (cells h v2));
               returning ctx (boolToVMValue h (f_le F (f_of_int64 F a) b)) }
           | _ \<Rightarrow> Some (None, ctx, h))
      | VMTypeFloat \<Rightarrow>
          (case TypeId (cells h v2) of
             VMTypeInt \<Rightarrow> do {
               a \<leftarrow> assert_float64 (Value (cells h v));
               b \<leftarrow> assert_int64 (Value (cells h v2));
               returning ctx (boolToVMValue h (f_le F a (f_of_int64 F b))) }
           | VMTypeFloat \<Rightarrow> do {
               a \<leftarrow> assert_float64 (Value (cells h v));
               b \<leftarrow> assert_float64 (Value (cells h v2));
               returning ctx (boolToVMValue h (f_le F a b)) }
           | _ \<Rightarrow> Some (None, ctx, h))
      | _ \<Rightarrow> Some (None, ctx, h))"

text \<open>
  \<open>==\<close> on two interface values: equal dynamic types and equal values. Pointers are equal
  when they are the same address, float64 values by the float64 \<open>==\<close>, and two nil
  interfaces are equal.
\<close>

fun iface_eq :: "'f float64_ops \<Rightarrow> 'f iface \<Rightarrow> 'f iface \<Rightarrow> bool" where
  "iface_eq F NilValue NilValue = True"
| "iface_eq F (Int64Value a) (Int64Value b) = (a = b)"
| "iface_eq F (Float64Value x) (Float64Value y) = f_eq F x y"
| "iface_eq F (StringValue s) (StringValue t) = (s = t)"
| "iface_eq F (ArrayDataPtr p) (ArrayDataPtr q) = (p = q)"
| "iface_eq F (ComputedDataPtr p) (ComputedDataPtr q) = (p = q)"
| "iface_eq F (FunctionDataPtr p) (FunctionDataPtr q) = (p = q)"
| "iface_eq F (NativeFunctionDataPtr p) (NativeFunctionDataPtr q) = (p = q)"
| "iface_eq F _ _ = False"

definition OpCompEQ :: "'f float64_ops \<Rightarrow> 'f Context \<Rightarrow> 'f heap \<Rightarrow> ptr \<Rightarrow> ptr \<Rightarrow> 'f outcome" where
  "OpCompEQ F ctx h v v2 =
     (if v = v2 then returning ctx (VMValueNewInt h 1)
      else if TypeId (cells h v) = TypeId (cells h v2)
      then returning ctx (boolToVMValue h (iface_eq F (Value (cells h v)) (Value (cells h v2))))
      else
        (case TypeId (cells h v) of
           VMTypeInt \<Rightarrow>
             (case TypeId (cells h v2) of
                VMTypeFloat \<Rightarrow> do {
                  a \<leftarrow> assert_int64 (Value (cells h v));
                  b \<leftarrow> assert_float64 (Value (cells h v2));
                  returning ctx (boolToVMValue h (f_eq F (f_of_int64 F a) b)) }
              | _ \<Rightarrow> returning ctx (VMValueNewInt h 0))
         | VMTypeFloat \<Rightarrow>
             (case TypeId (cells h v2) of
                VMTypeInt \<Rightarrow> do {
                  a \<leftarrow> assert_float64 (Value (cells h v));
                  b \<leftarrow> assert_int64 (Value (cells h v2));
                  returning ctx (boolToVMValue h (f_eq F a (f_of_int64 F b))) }
              | _ \<Rightarrow> returning ctx (VMValueNewInt h 0))
         | _ \<Rightarrow> returning ctx (VMValueNewInt h 0)))"

definition AsBool :: "'f heap \<Rightarrow> ptr \<Rightarrow> bool" where
  "AsBool h v =
     (case TypeId (cells h v) of
        VMTypeInt \<Rightarrow> Value (cells h v) \<noteq> Int64Value 0
      | VMTypeString \<Rightarrow> Value (cells h v) \<noteq> StringValue []
      | _ \<Rightarrow> False)"

definition OpCompNE :: "'f float64_ops \<Rightarrow> 'f Context \<Rightarrow> 'f heap \<Rightarrow> ptr \<Rightarrow> ptr \<Rightarrow> 'f outcome" where
  "OpCompNE F ctx h v v2 = do {
     (ret, ctx1, h1) \<leftarrow> OpCompEQ F ctx h v v2;
     r \<leftarrow> ret;
     returning ctx1 (boolToVMValue h1 (\<not> AsBool h1 r)) }"

definition OpCompGE :: "'f float64_ops \<Rightarrow> 'f Context \<Rightarrow> 'f heap \<Rightarrow> ptr \<Rightarrow> ptr \<Rightarrow> 'f outcome" where
  "OpCompGE F ctx h v v2 =
     (case TypeId (cells h v) of
        VMTypeInt \<Rightarrow>
          (case TypeId (cells h v2) of
             VMTypeInt \<Rightarrow> do {
               a \<leftarrow> assert_int64 (Value (cells h v));
               b \<leftarrow> assert_int64 (Value (cells h v2));
               returning ctx (boolToVMValue h (sint b \<le> sint a)) }
           | VMTypeFloat \<Rightarrow> do {
               a \<leftarrow> assert_int64 (Value (cells h v));
               b \<leftarrow> assert_float64 (Value (cells h v2));
               returning ctx (boolToVMValue h (f_le F b (f_of_int64 F a))) }
           | _ \<Rightarrow> Some (None, ctx, h))
      | VMTypeFloat \<Rightarrow>
          (case TypeId (cells h v2) of
             VMTypeInt \<Rightarrow> do {
               a \<leftarrow> assert_float64 (Value (cells h v));
               b \<leftarrow> assert_int64 (Value (cells h v2));
               returning ctx (boolToVMValue h (f_le F (f_of_int64 F b) a)) }
           | VMTypeFloat \<Rightarrow> do {
               a \<leftarrow> assert_float64 (Value (cells h v));
               b \<leftarrow> assert_float64 (Value (cells h v2));
               returning ctx (boolToVMValue h (f_le F b a)) }
           | _ \<Rightarrow> Some (None, ctx, h))
      | _ \<Rightarrow> Some (None, ctx, h))"

definition OpCompGT :: "'f float64_ops \<Rightarrow> 'f Context \<Rightarrow> 'f heap \<Rightarrow> ptr \<Rightarrow> ptr \<Rightarrow> 'f outcome" where
  "OpCompGT F ctx h v v2 =
     (case TypeId (cells h v) of
        VMTypeInt \<Rightarrow>
          (case TypeId (cells h v2) of
             VMTypeInt \<Rightarrow> do {
               a \<leftarrow> assert_int64 (Value (cells h v));
               b \<leftarrow> assert_int64 (Value (cells h v2));
               returning ctx (boolToVMValue h (sint b < sint a)) }
           | VMTypeFloat \<Rightarrow> do {
               a \<leftarrow> assert_int64 (Value (cells h v));
               b \<leftarrow> assert_float64 (Value (cells h v2));
               returning ctx (boolToVMValue h (f_lt F b (f_of_int64 F a))) }
           | _ \<Rightarrow> Some (None, ctx, h))
      | VMTypeFloat \<Rightarrow>
          (case TypeId (cells h v2) of
             VMTypeInt \<Rightarrow> do {
               a \<leftarrow> assert_float64 (Value (cells h v));
               b \<leftarrow> assert_int64 (Value (cells h v2));
               returning ctx (boolToVMValue h (f_lt F (f_of_int64 F b) a)) }
           | VMTypeFloat \<Rightarrow> do {
               a \<leftarrow> assert_float64 (Value (cells h v));
               b \<leftarrow> assert_float64 (Value (cells h v2));
               returning ctx (boolToVMValue h (f_lt F b a)) }
           | _ \<Rightarrow> Some (None, ctx, h))
      | _ \<Rightarrow> Some (None, ctx, h))"

text \<open>The operator table, indexed by the interpreter with \<open>0\<close> to \<open>11\<close>.\<close>

definition binOperator ::
  "('f float64_ops \<Rightarrow> 'f Context \<Rightarrow> 'f heap \<Rightarrow> ptr \<Rightarrow> ptr \<Rightarrow> 'f outcome) list" where
  "binOperator =
     [OpAdd, OpSub, OpMultiply, OpDivide, OpModulus, OpPower,
      OpCompLT, OpCompLE, OpCompEQ, OpCompNE, OpCompGE, OpCompGT]"

section \<open>Attributes\<close>

text \<open>
  Modelled from the spec: the type \<open>ValueMap\<close> is declared outside the file. It is the
  insertion-ordered mapping from string to Value of the specification, with \<open>Put\<close>
  (store under a key, replacing what the key held) and \<open>Get\<close> (the value under a key, or
  nothing).
\<close>

definition ValueMap_Put :: "(string \<times> ptr) list \<Rightarrow> string \<Rightarrow> ptr \<Rightarrow> (string \<times> ptr) list" where
  "ValueMap_Put m k p = AList.update k p m"

definition ValueMap_Get :: "(string \<times> ptr) list \<Rightarrow> string \<Rightarrow> ptr option" where
  "ValueMap_Get m k = map_of m k"

text \<open>
  \<open>SetAttr\<close> creates the attribute map of a Computed on the first write, then stores a
  clone of \<open>val\<close> under \<open>name\<close> and returns \<open>val\<close>. It takes no frame.
\<close>

definition SetAttr :: "'f heap \<Rightarrow> ptr \<Rightarrow> string \<Rightarrow> ptr \<Rightarrow> (ptr option \<times> 'f heap) option" where
  "SetAttr h v name val =
     (case TypeId (cells h v) of
        VMTypeComputedValue \<Rightarrow> do {
          (cdp, _) \<leftarrow> ReadComputed h v;
          cd \<leftarrow> cdp;
          let h1 = (case cd_Attrs (computeds h cd) of
                      Some _ \<Rightarrow> h
                    | None \<Rightarrow> h\<lparr>valuemaps := (valuemaps h)(next_ptr h := []),
                                computeds := (computeds h)
                                  (cd := (computeds h cd)\<lparr>cd_Attrs := Some (next_ptr h)\<rparr>),
                                next_ptr := Suc (next_ptr h)\<rparr>);
          m \<leftarrow> cd_Attrs (computeds h1 cd);
          let (c, h2) = Clone h1 val;
          Some (Some val, h2\<lparr>valuemaps := (valuemaps h2)(m := ValueMap_Put (valuemaps h2 m) name c)\<rparr>)
        }
      | _ \<Rightarrow> Some (None, h))"

definition GetAttr :: "'f Context \<Rightarrow> 'f heap \<Rightarrow> ptr \<Rightarrow> string \<Rightarrow> (ptr option \<times> 'f heap) option" where
  "GetAttr ctx h v name =
     (case TypeId (cells h v) of
        VMTypeComputedValue \<Rightarrow> do {
          (cdp, _) \<leftarrow> ReadComputed h v;
          cd \<leftarrow> cdp;
          let ret = (case cd_Attrs (computeds h cd) of
                       Some m \<Rightarrow> ValueMap_Get (valuemaps h m) name
                     | None \<Rightarrow> None);
          (case ret of
             Some r \<Rightarrow> Some (Some r, h)
           | None \<Rightarrow> (let (u, h1) = VMValueNewUndefined h in Some (Some u, h1)))
        }
      | VMTypeFunction \<Rightarrow>
          (let ret = (case attrs ctx of
                        Some m \<Rightarrow> ValueMap_Get (valuemaps h m) name
                      | None \<Rightarrow> None)
           in case ret of
                Some r \<Rightarrow> Some (Some r, h)
              | None \<Rightarrow> (let (u, h1) = VMValueNewUndefined h in Some (Some u, h1)))
      | _ \<Rightarrow> Some (None, h))"

section \<open>Method calls on arrays\<close>

text \<open>
  The loops of \<open>ArrayFuncKeepHigh\<close> and \<open>ArrayFuncKeepLow\<close> carry \<open>maxFloat\<close>, \<open>isFloat\<close> and
  \<open>isFirst\<close>; elements that are neither Int nor Float are passed over. \<open>maxFloat\<close> starts
  as the float64 zero value.
\<close>

fun keepHigh_loop ::
  "'f float64_ops \<Rightarrow> 'f heap \<Rightarrow> ptr list \<Rightarrow> 'f \<times> bool \<times> bool \<Rightarrow> ('f \<times> bool \<times> bool) option" where
  "keepHigh_loop F h [] st = Some st"
| "keepHigh_loop F h (i # rest) (maxFloat, isFloat, isFirst) =
     (case TypeId (cells h i) of
        VMTypeInt \<Rightarrow> do {
          x \<leftarrow> assert_int64 (Value (cells h i));
          keepHigh_loop F h rest
            (if isFirst then (f_of_int64 F x, isFloat, False)
             else (if f_lt F maxFloat (f_of_int64 F x) then f_of_int64 F x else maxFloat,
                   isFloat, isFirst)) }
      | VMTypeFloat \<Rightarrow> do {
          x \<leftarrow> assert_float64 (Value (cells h i));
          keepHigh_loop F h rest
            (if isFirst then (x, True, False)
             else (if f_lt F maxFloat x then x else maxFloat, True, isFirst)) }
      | _ \<Rightarrow> keepHigh_loop F h rest (maxFloat, isFloat, isFirst))"

fun keepLow_loop ::
  "'f float64_ops \<Rightarrow> 'f heap \<Rightarrow> ptr list \<Rightarrow> 'f \<times> bool \<times> bool \<Rightarrow> ('f \<times> bool \<times> bool) option" where
  "keepLow_loop F h [] st = Some st"
| "keepLow_loop F h (i # rest) (maxFloat, isFloat, isFirst) =
     (case TypeId (cells h i) of
        VMTypeInt \<Rightarrow> do {
          x \<leftarrow> assert_int64 (Value (cells h i));
          keepLow_loop F h rest
            (if isFirst then (f_of_int64 F x, isFloat, False)
             else (if f_lt F (f_of_int64 F x) maxFloat then f_of_int64 F x else maxFloat,
                   isFloat, isFirst)) }
      | VMTypeFloat \<Rightarrow> do {
          x \<leftarrow> assert_float64 (Value (cells h i));
          keepLow_loop F h rest
            (if isFirst then (x, True, False)
             else (if f_lt F x maxFloat then x else maxFloat, True, isFirst)) }
      | _ \<Rightarrow> keepLow_loop F h rest (maxFloat, isFloat, isFirst))"

definition ArrayFuncKeepHigh :: "'f float64_ops \<Rightarrow> 'f Context \<Rightarrow> 'f heap \<Rightarrow> ptr \<Rightarrow> 'f outcome" where
  "ArrayFuncKeepHigh F ctx h v = do {
     (arr, _) \<leftarrow> ReadArray h v;
     a \<leftarrow> arr;
     (maxFloat, isFloat, _) \<leftarrow> keepHigh_loop F h (arrays h a) (f_of_int64 F 0, False, True);
     if isFloat then returning ctx (VMValueNewFloat h maxFloat)
     else returning ctx (VMValueNewInt h (f_to_int64 F maxFloat)) }"

definition ArrayFuncKeepLow :: "'f float64_ops \<Rightarrow> 'f Context \<Rightarrow> 'f heap \<Rightarrow> ptr \<Rightarrow> 'f outcome" where
  "ArrayFuncKeepLow F ctx h v = do {
     (arr, _) \<leftarrow> ReadArray h v;
     a \<leftarrow> arr;
     (maxFloat, isFloat, _) \<leftarrow> keepLow_loop F h (arrays h a) (f_of_int64 F 0, False, True);
     if isFloat then returning ctx (VMValueNewFloat h maxFloat)
     else returning ctx (VMValueNewInt h (f_to_int64 F maxFloat)) }"

definition CallFunc ::
  "'f float64_ops \<Rightarrow> 'f Context \<Rightarrow> 'f heap \<Rightarrow> ptr \<Rightarrow> string \<Rightarrow> ptr list \<Rightarrow> 'f outcome" where
  "CallFunc F ctx h v name vals =
     (if TypeId (cells h v) = VMTypeArray \<and> name = ''kh'' then ArrayFuncKeepHigh F ctx h v
      else if TypeId (cells h v) = VMTypeArray \<and> name = ''kl'' then ArrayFuncKeepLow F ctx h v
      else returning ctx (VMValueNewUndefined h))"

section \<open>Indexing and slicing\<close>

definition getClampRealIndex :: "'f Context \<Rightarrow> int64 \<Rightarrow> int64 \<Rightarrow> int64" where
  "getClampRealIndex ctx index len =
     (let i1 = (if sint index < 0 then len + index else index);
          i2 = (if sint i1 < 0 then 0 else i1)
      in if sint len < sint i2 then len else i2)"

definition getRealIndex :: "'f Context \<Rightarrow> int64 \<Rightarrow> int64 \<Rightarrow> int64 \<times> 'f Context" where
  "getRealIndex ctx index len =
     (let i1 = (if sint index < 0 then len + index else index)
      in (i1, if sint len \<le> sint i1 \<or> sint i1 < 0
              then ctx\<lparr>Error := Some IndexOutOfRange\<rparr> else ctx))"

text \<open>
  Indexing and slicing a Go slice or string panic outside the bounds. (For a slice the upper
  bound of a slice expression is the capacity; the model has no capacities and uses the
  length, and the callers below stay within the length.)
\<close>

definition go_index :: "'a list \<Rightarrow> int \<Rightarrow> 'a option" where
  "go_index xs i = (if 0 \<le> i \<and> i < int (length xs) then Some (xs ! nat i) else None)"


definition go_store :: "'a list \<Rightarrow> int \<Rightarrow> 'a \<Rightarrow> 'a list option" where
  "go_store xs i x = (if 0 \<le> i \<and> i < int (length xs) then Some (xs[nat i := x]) else None)"

definition ArrayGetItem :: "'f Context \<Rightarrow> 'f heap \<Rightarrow> ptr \<Rightarrow> int64 \<Rightarrow> 'f outcome" where
  "ArrayGetItem ctx h v index =
     (if TypeId (cells h v) = VMTypeArray then do {
        (arr, _) \<leftarrow> ReadArray h v;
        a \<leftarrow> arr;
        let (i, ctx1) = getRealIndex ctx index (word_of_nat (length (arrays h a)));
        if Error ctx1 \<noteq> None then Some (None, ctx1, h)
        else do { p \<leftarrow> go_index (arrays h a) (sint i); Some (Some p, ctx1, h) } }
      else Some (None, ctx\<lparr>Error := Some CannotIndex\<rparr>, h))"

definition ArraySetItem ::
  "'f Context \<Rightarrow> 'f heap \<Rightarrow> ptr \<Rightarrow> int64 \<Rightarrow> ptr \<Rightarrow> (bool \<times> 'f Context \<times> 'f heap) option" where
  "ArraySetItem ctx h v index val =
     (if TypeId (cells h v) = VMTypeArray then do {
        (arr, _) \<leftarrow> ReadArray h v;
        a \<leftarrow> arr;
        let (i, ctx1) = getRealIndex ctx index (word_of_nat (length (arrays h a)));
        if Error ctx1 \<noteq> None then Some (False, ctx1, h)
        else do {
          let (c, h1) = Clone h val;
          xs \<leftarrow> go_store (arrays h1 a) (sint i) c;
          Some (True, ctx1, h1\<lparr>arrays := (arrays h1)(a := xs)\<rparr>) } }
      else Some (False, ctx\<lparr>Error := Some CannotIndex\<rparr>, h))"



text \<open>
  \<open>SetSlice\<close> builds \<open>newArr\<close> with \<open>make\<close> (every slot \<open>nil\<close>, here \<open>None\<close>) and fills it with
  three loops, each an indexed store that panics out of range; \<open>make\<close> panics on a negative
  length. The model stops as a panic does should a slot be left \<open>nil\<close>, since the lists of
  the store hold no \<open>nil\<close>; the loops leave none. There is no test of the new length.
\<close>

fun for_each :: "'i list \<Rightarrow> ('i \<Rightarrow> 's \<Rightarrow> 's option) \<Rightarrow> 's \<Rightarrow> 's option" where
  "for_each [] body s = Some s"
| "for_each (i # rest) body s = (case body i s of None \<Rightarrow> None | Some s' \<Rightarrow> for_each rest body s')"

fun no_nil :: "'a option list \<Rightarrow> 'a list option" where
  "no_nil [] = Some []"
| "no_nil (None # xs) = None"
| "no_nil (Some x # xs) = map_option ((#) x) (no_nil xs)"

text \<open>
  The construction of \<open>newArr\<close>, from \<open>offset := \<dots>\<close> to the end of the third loop, for
  the lists \<open>xs\<close> of the target and \<open>ys\<close> of the value, the clamped bounds \<open>a\<close> and \<open>b\<close>
  and \<open>d\<close>, the value of \<open>int(_b-_a)\<close>.
\<close>

definition SetSlice_newArr :: "'a list \<Rightarrow> 'a list \<Rightarrow> int \<Rightarrow> int \<Rightarrow> int \<Rightarrow> 'a list option" where
  "SetSlice_newArr xs ys a b d = do {
     newArr0 \<leftarrow> (if int (length xs) + (int (length ys) - d) < 0 then None
                  else Some (replicate (nat (int (length xs) + (int (length ys) - d))) None));
     newArr1 \<leftarrow> for_each (map int [0..<nat a])
                  (\<lambda>i new. do { x \<leftarrow> go_index xs i; go_store new i (Some x) }) newArr0;
     newArr2 \<leftarrow> for_each (map int [0..<length ys])
                  (\<lambda>i new. do { y \<leftarrow> go_index ys i; go_store new (a + i) (Some y) })
                  newArr1;
     newArr3 \<leftarrow> for_each [b + (int (length ys) - d)..int (length newArr2) - 1]
                  (\<lambda>i new. do { x \<leftarrow> go_index xs (i - (int (length ys) - d));
                                go_store new i (Some x) })
                  newArr2;
     no_nil newArr3 }"

definition SetSlice ::
  "'f Context \<Rightarrow> 'f heap \<Rightarrow> ptr \<Rightarrow> int64 \<Rightarrow> int64 \<Rightarrow> int64 \<Rightarrow> ptr \<Rightarrow> (bool \<times> 'f Context \<times> 'f heap) option" where
  "SetSlice ctx h v a b step val = do {
     (arr, ok) \<leftarrow> ReadArray h v;
     if \<not> ok then Some (False, ctx\<lparr>Error := Some CannotAssignSlice\<rparr>, h)
     else do {
       (arr2, ok2) \<leftarrow> ReadArray h val;
       if \<not> ok2 then Some (False, ctx\<lparr>Error := Some ValueNotList\<rparr>, h)
       else do {
         p \<leftarrow> arr;
         p2 \<leftarrow> arr2;
         let len = (word_of_nat (length (arrays h p)) :: int64);
         let a0 = getClampRealIndex ctx a len;
         let b' = getClampRealIndex ctx b len;
         let a' = (if sint b' < sint a0 then b' else a0);
         newArr \<leftarrow> SetSlice_newArr (arrays h p) (arrays h p2) (sint a') (sint b') (sint (b' - a'));
         Some (True, ctx, h\<lparr>arrays := (arrays h)(p := newArr)\<rparr>) } } }"

section \<open>Sub-evaluation\<close>

text \<open>
  \<open>NewVM\<close>, \<open>Context.Run\<close> and \<open>Parser.Evaluate\<close> are defined outside the file and are
  parameters of the model: \<open>NewVM\<close> is the frame a fresh VM starts with, \<open>Run\<close> compiles and
  runs an expression in a frame, \<open>Evaluate\<close> runs the bytecode a frame already holds. Both
  may change the store, and return \<open>None\<close> when they panic or do not return.
\<close>

record 'f externals =
  NewVM :: "'f Context"
  Run :: "string \<Rightarrow> 'f Context \<Rightarrow> 'f heap \<Rightarrow> ('f Context \<times> 'f heap) option"
  Evaluate :: "'f Context \<Rightarrow> 'f heap \<Rightarrow> ('f Context \<times> 'f heap) option"

text \<open>The result of a finished child frame: a clone of the stack top, or Undefined.\<close>

definition stack_result :: "'f Context \<Rightarrow> 'f heap \<Rightarrow> (ptr \<times> 'f heap) option" where
  "stack_result vm h =
     (if top vm \<noteq> 0 then do {
        x \<leftarrow> go_index (stack vm) (top vm - 1);
        Some (new_cell h \<lparr>TypeId = TypeId x, Value = Value x\<rparr>) }
      else Some (VMValueNewUndefined h))"

text \<open>
  The child frame of \<open>ComputedExecute\<close> as it is set up before it runs, and the \<open>if\<close> that
  runs it: with no cached bytecode the expression is compiled and run by \<open>Run\<close> and the
  code of the child is stored in the \<open>ComputedData\<close>; otherwise the cached code is put
  into the child and run by \<open>Evaluate\<close>.
\<close>

definition Computed_child :: "'f externals \<Rightarrow> 'f Context \<Rightarrow> ptr \<Rightarrow> 'f Context" where
  "Computed_child E ctx v =
     (NewVM E)\<lparr>Flags := Flags ctx, subThreadDepth := subThreadDepth ctx + 1,
               currentThis := Some v, NumOpCount := NumOpCount ctx + 200\<rparr>"

definition Computed_run ::
  "'f externals \<Rightarrow> 'f Context \<Rightarrow> 'f heap \<Rightarrow> ptr \<Rightarrow> ('f Context \<times> 'f heap) option" where
  "Computed_run E vm h cd =
     (if cd_code (computeds h cd) = None then do {
        (vm', h') \<leftarrow> Run E (cd_Expr (computeds h cd)) vm h;
        Some (vm', h'\<lparr>computeds := (computeds h')
                (cd := (computeds h' cd)\<lparr>cd_code := code vm', cd_codeIndex := codeIndex vm'\<rparr>)\<rparr>) }
      else Evaluate E (vm\<lparr>code := cd_code (computeds h cd),
                          codeIndex := cd_codeIndex (computeds h cd)\<rparr>) h)"

definition ComputedExecute :: "'f externals \<Rightarrow> 'f Context \<Rightarrow> 'f heap \<Rightarrow> ptr \<Rightarrow> 'f outcome" where
  "ComputedExecute E ctx h v = do {
     (cdp, _) \<leftarrow> ReadComputed h v;
     let vm = Computed_child E ctx v;
     cd \<leftarrow> cdp;
     (vm1, h1) \<leftarrow> Computed_run E vm h cd;
     if Error vm1 \<noteq> None then Some (None, ctx\<lparr>Error := Error vm1\<rparr>, h1)
     else do {
       (ret, h2) \<leftarrow> stack_result vm1 h1;
       Some (Some ret, ctx\<lparr>NumOpCount := NumOpCount vm1\<rparr>, h2) } }"





text \<open>A Computed value evaluated \<open>n\<close> times in a row from one frame.\<close>

fun executions ::
  "'f externals \<Rightarrow> 'f Context \<Rightarrow> 'f heap \<Rightarrow> ptr \<Rightarrow> nat \<Rightarrow> ('f Context \<times> 'f heap) option" where
  "executions E ctx h v 0 = Some (ctx, h)"
| "executions E ctx h v (Suc n) =
     (case ComputedExecute E ctx h v of
        None \<Rightarrow> None
      | Some (r, ctx1, h1) \<Rightarrow> executions E ctx1 h1 v n)"

section \<open>Slicing as the specification words it\<close>

text \<open>
  Written from the specification, to be compared with \<open>GetSlice\<close>: a negative bound is first
  increased by the length, then each bound is clamped into \<open>[0, len]\<close>; a lower bound above
  the upper bound is reset to the upper bound; the slice is the elements at the positions of
  the half-open range.
\<close>

definition spec_bound :: "int \<Rightarrow> int \<Rightarrow> int" where
  "spec_bound len i = max 0 (min len (if i < 0 then i + len else i))"


section \<open>The numeric elements of an array\<close>

text \<open>
  To state what \<open>kh\<close> and \<open>kl\<close> return: the Int and Float elements of a list of handles, in
  order, each Int widened to float64; the values of the Int elements; and whether a list has
  an element of kind Float.
\<close>

definition widen :: "'f float64_ops \<Rightarrow> 'f VMValue \<Rightarrow> 'f option" where
  "widen F c =
     (case TypeId c of
        VMTypeInt \<Rightarrow> map_option (f_of_int64 F) (assert_int64 (Value c))
      | VMTypeFloat \<Rightarrow> assert_float64 (Value c)
      | _ \<Rightarrow> None)"

fun widened :: "'f float64_ops \<Rightarrow> 'f heap \<Rightarrow> ptr list \<Rightarrow> 'f list" where
  "widened F h [] = []"
| "widened F h (i # rest) =
     (case widen F (cells h i) of
        Some x \<Rightarrow> x # widened F h rest
      | None \<Rightarrow> widened F h rest)"

fun int_elements :: "'f heap \<Rightarrow> ptr list \<Rightarrow> int64 list" where
  "int_elements h [] = []"
| "int_elements h (i # rest) =
     (if TypeId (cells h i) = VMTypeInt
      then (case assert_int64 (Value (cells h i)) of
              Some x \<Rightarrow> x # int_elements h rest
            | None \<Rightarrow> int_elements h rest)
      else int_elements h rest)"

definition has_Float :: "'f heap \<Rightarrow> ptr list \<Rightarrow> bool" where
  "has_Float h ps = list_ex (\<lambda>i. TypeId (cells h i) = VMTypeFloat) ps"

text \<open>
  Conditions under which the results can be stated: a cell whose tag Int or Float agrees
  with its payload; a float64 \<open><\<close> that is irreflexive and transitive on a list of values
  (as the float64 order is); and a conversion between int64 and float64 that is exact and
  keeps the order on a list of Ints (as it is for magnitudes up to \<open>2 ^ 53\<close>).
\<close>

definition numeric_ok :: "'f VMValue \<Rightarrow> bool" where
  "numeric_ok c \<longleftrightarrow>
     (TypeId c = VMTypeInt \<longrightarrow> assert_int64 (Value c) \<noteq> None) \<and>
     (TypeId c = VMTypeFloat \<longrightarrow> assert_float64 (Value c) \<noteq> None)"

definition lt_orders :: "'f float64_ops \<Rightarrow> 'f list \<Rightarrow> bool" where
  "lt_orders F W \<longleftrightarrow>
     (\<forall>x\<in>set W. \<not> f_lt F x x) \<and>
     (\<forall>x\<in>set W. \<forall>y\<in>set W. \<forall>z\<in>set W. f_lt F x y \<longrightarrow> f_lt F y z \<longrightarrow> f_lt F x z)"

definition exact_on :: "'f float64_ops \<Rightarrow> int64 list \<Rightarrow> bool" where
  "exact_on F xs \<longleftrightarrow>
     (\<forall>x\<in>set xs. f_to_int64 F (f_of_int64 F x) = x) \<and>
     (\<forall>x\<in>set xs. \<forall>y\<in>set xs. f_lt F (f_of_int64 F x) (f_of_int64 F y) \<longleftrightarrow> sint x < sint y)"

section \<open>The bytecode cache of a Computed value\<close>

text \<open>
  To state the reuse of the cache: the handle \<open>v\<close> is an allocated Computed value whose
  \<open>ComputedData\<close> at \<open>cd\<close> holds bytecode; and the external interpreter, running bytecode,
  leaves such a value as it is (the file has no other writer of the field \<open>code\<close> than
  \<open>ComputedExecute\<close> itself).
\<close>

definition cached :: "'f heap \<Rightarrow> ptr \<Rightarrow> ptr \<Rightarrow> bool" where
  "cached h v cd \<longleftrightarrow>
     cells h v = \<lparr>TypeId = VMTypeComputedValue, Value = ComputedDataPtr cd\<rparr> \<and>
     cd_code (computeds h cd) \<noteq> None \<and> v < next_ptr h"

definition keeps_cached :: "'f externals \<Rightarrow> ptr \<Rightarrow> ptr \<Rightarrow> bool" where
  "keeps_cached E v cd \<longleftrightarrow>
     (\<forall>vm h vm1 h1. cached h v cd \<longrightarrow> Evaluate E vm h = Some (vm1, h1) \<longrightarrow> cached h1 v cd)"

section \<open>Reading an outcome\<close>

text \<open>The value a call returned, when it returned one, and the error its frame then holds.\<close>

definition result_value :: "'f outcome \<Rightarrow> 'f VMValue option" where
  "result_value r = (case r of Some (Some p, ctx, h) \<Rightarrow> Some (cells h p) | _ \<Rightarrow> None)"


text \<open>The operation count the frame of the caller holds after a call.\<close>

definition result_count :: "'f outcome \<Rightarrow> int64 option" where
  "result_count r = (case r of Some (p, ctx, h) \<Rightarrow> Some (NumOpCount ctx) | None \<Rightarrow> None)"

section \<open>Sample instances\<close>

text \<open>
  An arithmetic to instantiate the float64 parameter with at concrete inputs: the floats
  are the integers, computed exactly. It agrees with float64 wherever operands and results
  are integers of magnitude at most \<open>2 ^ 53\<close>.
\<close>

definition int_ops :: "int float64_ops" where
  "int_ops =
     \<lparr>f_of_int64 = sint, f_to_int64 = word_of_int,
      f_add = (+), f_sub = (-), f_mul = (*), f_quo = (sdiv),
      f_pow = (\<lambda>x y. x ^ nat y), f_neg = uminus,
      f_eq = (=), f_lt = (<), f_le = (\<le>)\<rparr>"

text \<open>The zero values of \<open>RollExtraFlags\<close> and \<open>Context\<close>, and a store with nothing allocated.\<close>

definition zero_flags :: RollExtraFlags where
  "zero_flags =
     \<lparr>DiceMinMode = False, DiceMaxMode = False, DisableLoadVarname = False,
      IgnoreDiv0 = False, DefaultDiceSideNum = 0, DefaultDiceSideExpr = [],
      PrintBytecode = False\<rparr>"

definition zero_Context :: "'f Context" where
  "zero_Context =
     \<lparr>currentThis = None, subThreadDepth = 0, attrs = None, code = None, codeIndex = 0,
      stack = [], top = 0, NumOpCount = 0, Flags = zero_flags, Error = None\<rparr>"

definition empty_heap :: "'f heap" where
  "empty_heap =
     \<lparr>cells = (\<lambda>_. \<lparr>TypeId = VMTypeUndefined, Value = NilValue\<rparr>),
      arrays = (\<lambda>_. []),
      computeds = (\<lambda>_. \<lparr>cd_Expr = [], cd_Attrs = None, cd_code = None, cd_codeIndex = 0\<rparr>),
      funcdatas = (\<lambda>_. \<lparr>fd_Expr = [], fd_Name = [], fd_Params = [], fd_code = None,
                           fd_codeIndex = 0\<rparr>),
      valuemaps = (\<lambda>_. []),
      next_ptr = 0\<rparr>"

text \<open>A store holding the Int values \<open>a\<close> at address \<open>0\<close> and \<open>b\<close> at address \<open>1\<close>.\<close>

definition two_ints :: "int64 \<Rightarrow> int64 \<Rightarrow> int heap" where
  "two_ints a b = snd (VMValueNewInt (snd (VMValueNewInt empty_heap a)) b)"

text \<open>
  A store with the Int \<open>5\<close> at address \<open>0\<close>, two arrays built separately from that one
  element (cells \<open>2\<close> and \<open>4\<close>, with their \<open>ArrayData\<close> at \<open>1\<close> and \<open>3\<close>), a clone of the first
  array (cell \<open>5\<close>) and the Float \<open>5\<close> (cell \<open>6\<close>).
\<close>

definition two_arrays :: "int heap" where
  "two_arrays =
     (let h1 = snd (VMValueNewInt empty_heap 5);
          h2 = snd (VMValueNewArray h1 [0]);
          h3 = snd (VMValueNewArray h2 [0]);
          h4 = snd (Clone h3 2)
      in snd (VMValueNewFloat h4 5))"

text \<open>
  A store with the Int \<open>5\<close> at address \<open>0\<close> and a Computed with the expression \<open>x+1\<close> and no
  attributes yet (cell \<open>2\<close>, its \<open>ComputedData\<close> at \<open>1\<close>).
\<close>

definition one_computed :: "int heap" where
  "one_computed = snd (VMValueNewComputed (snd (VMValueNewInt empty_heap 5)) ''x+1'')"


text \<open>
  A store with the Int \<open>5\<close> at address \<open>0\<close>, an array of \<open>512\<close> elements (cell \<open>2\<close>, its
  \<open>ArrayData\<close> at \<open>1\<close>) and an array of one element (cell \<open>4\<close>, its \<open>ArrayData\<close> at \<open>3\<close>).
\<close>

definition full_array :: "int heap" where
  "full_array =
     (let h1 = snd (VMValueNewInt empty_heap 5);
          h2 = snd (VMValueNewArray h1 (replicate 512 0))
      in snd (VMValueNewArray h2 [0]))"

text \<open>A store holding only an empty array (cell \<open>1\<close>, its \<open>ArrayData\<close> at \<open>0\<close>).\<close>

definition empty_array :: "int heap" where
  "empty_array = snd (VMValueNewArray empty_heap [])"

text \<open>
  A store with the Ints \<open>3\<close> and \<open>7\<close> (cells \<open>0\<close> and \<open>1\<close>), the Float \<open>5\<close> (cell \<open>2\<close>), a
  String (cell \<open>3\<close>), the array of cells \<open>0\<close>, \<open>1\<close>, \<open>3\<close> (cell \<open>5\<close>, its \<open>ArrayData\<close> at \<open>4\<close>)
  and the array of cells \<open>0\<close>, \<open>2\<close>, \<open>1\<close> (cell \<open>7\<close>, its \<open>ArrayData\<close> at \<open>6\<close>).
\<close>

definition mixed_arrays :: "int heap" where
  "mixed_arrays =
     (let h1 = snd (VMValueNewInt empty_heap 3);
          h2 = snd (VMValueNewInt h1 7);
          h3 = snd (VMValueNewFloat h2 5);
          h4 = snd (VMValueNewStr h3 ''d6'');
          h5 = snd (VMValueNewArray h4 [0, 1, 3])
      in snd (VMValueNewArray h5 [0, 2, 1]))"

text \<open>
  Two stand-ins for the external parser and interpreter, to run the sub-evaluation at
  concrete inputs. The first accepts every expression: it compiles it to an empty program
  and leaves the Int \<open>1\<close> on the stack, counting no operation. The second rejects every
  expression with a parse error.
\<close>

definition literal_parser :: "int externals" where
  "literal_parser =
     \<lparr>NewVM = zero_Context,
      Run = (\<lambda>expr vm h. Some (vm\<lparr>code := Some [], codeIndex := 0,
                                    stack := [\<lparr>TypeId = VMTypeInt, Value = Int64Value 1\<rparr>],
                                    top := 1\<rparr>, h)),
      Evaluate = (\<lambda>vm h. Some (vm\<lparr>stack := [\<lparr>TypeId = VMTypeInt, Value = Int64Value 1\<rparr>],
                                   top := 1\<rparr>, h))\<rparr>"



section \<open>Machine arithmetic\<close>

lemma sint_int64_of_int:
  assumes "- (2 ^ 63) \<le> k" and "k < 2 ^ 63"
  shows "sint (word_of_int k :: int64) = k"
  using assms by (simp only: signed_of_int) (simp add: signed_take_bit_int_eq_self)

lemma sint_int64_of_nat:
  assumes "n < 2 ^ 63"
  shows "sint (word_of_nat n :: int64) = int n"
proof -
  have "- (2 ^ 63) \<le> int n" by (rule order_trans [of _ 0]) simp_all
  moreover have "int n < 2 ^ 63" using assms by (simp add: of_nat_less_iff [of n "2 ^ 63", where 'a=int, simplified])
  ultimately show ?thesis
    by (simp only: signed_of_nat) (simp add: signed_take_bit_int_eq_self)
qed

lemma int64_rem_sint:
  assumes "b \<noteq> 0"
  shows "sint (int64_rem a b) = sgn (sint a) * (\<bar>sint a\<bar> mod \<bar>sint b\<bar>)"
proof -
  have b0: "sint b \<noteq> 0" using assms by (simp add: signed_eq_0_iff)
  have ra: "- (2^63) \<le> sint a" "sint a < 2^63" using sint_ge [of a] sint_lt [of a] by simp_all
  have rb: "- (2^63) \<le> sint b" "sint b < 2^63" using sint_ge [of b] sint_lt [of b] by simp_all
  let ?m = "\<bar>sint a\<bar> mod \<bar>sint b\<bar>"
  have bp: "0 < \<bar>sint b\<bar>" using b0 by simp
  have m1: "0 \<le> ?m" using bp by (rule pos_mod_sign)
  have m2: "?m < \<bar>sint b\<bar>" using bp by (rule pos_mod_bound)
  have m3: "?m \<le> \<bar>sint a\<bar>" by (simp add: zmod_le_nonneg_dividend)
  have "sint a smod sint b = sgn (sint a) * ?m" by (simp add: signed_modulo_int_def)
  moreover have "- (2^63) \<le> sgn (sint a) * ?m \<and> sgn (sint a) * ?m < 2^63"
    using m1 m2 m3 ra rb by (cases "sint a" "0::int" rule: linorder_cases) auto
  ultimately show ?thesis
    unfolding int64_rem_def by (simp only: sint_int64_of_int)
qed


section \<open>The modulus operator\<close>

lemma two_ints_cells:
  "cells (two_ints a b) 0 = \<lparr>TypeId = VMTypeInt, Value = Int64Value a\<rparr>"
  "cells (two_ints a b) (Suc 0) = \<lparr>TypeId = VMTypeInt, Value = Int64Value b\<rparr>"
  by (simp_all add: two_ints_def VMValueNewInt_def new_cell_def empty_heap_def)

text \<open>
  Claim C10. \<open>OpModulus\<close> on two Int operands computes Go's remainder \<open>a % b\<close> with no guard
  on the right operand. For every pair of Ints with \<open>b \<noteq> 0\<close> it returns the Int \<open>a % b\<close>, the
  truncated remainder, whose sign follows the dividend, and leaves the frame as it was, so no
  error is set. With \<open>b = 0\<close> the remainder panics: the operation is total only when
  \<open>b \<noteq> 0\<close>. Whatever the operands are, a call that returns leaves the frame unchanged, so a
  \<open>DivideByZero\<close> error is never produced.
\<close>

theorem OpModulus_remainder:
  "(\<forall>res ctx' h'. OpModulus F ctx h v v2 = Some (res, ctx', h') \<longrightarrow> ctx' = ctx) \<and>
   (cells h v = \<lparr>TypeId = VMTypeInt, Value = Int64Value a\<rparr> \<longrightarrow>
    cells h v2 = \<lparr>TypeId = VMTypeInt, Value = Int64Value b\<rparr> \<longrightarrow>
      (b \<noteq> 0 \<longrightarrow>
         OpModulus F ctx h v v2 = returning ctx (VMValueNewInt h (int64_rem a b)) \<and>
         sint (int64_rem a b) = sgn (sint a) * (\<bar>sint a\<bar> mod \<bar>sint b\<bar>)) \<and>
      (b = 0 \<longrightarrow> OpModulus F ctx h v v2 = None))"
proof (intro conjI allI impI)
  fix res ctx' h'
  assume "OpModulus F ctx h v v2 = Some (res, ctx', h')"
  then show "ctx' = ctx"
    by (auto simp: OpModulus_def returning_def
             split: VMValueType.splits if_splits Option.bind_splits)
next
  assume "cells h v = \<lparr>TypeId = VMTypeInt, Value = Int64Value a\<rparr>"
     and "cells h v2 = \<lparr>TypeId = VMTypeInt, Value = Int64Value b\<rparr>" and "b \<noteq> 0"
  then show "OpModulus F ctx h v v2 = returning ctx (VMValueNewInt h (int64_rem a b))"
    by (simp add: OpModulus_def)
next
  assume "b \<noteq> 0"
  then show "sint (int64_rem a b) = sgn (sint a) * (\<bar>sint a\<bar> mod \<bar>sint b\<bar>)"
    by (rule int64_rem_sint)
next
  assume "cells h v = \<lparr>TypeId = VMTypeInt, Value = Int64Value a\<rparr>"
     and "cells h v2 = \<lparr>TypeId = VMTypeInt, Value = Int64Value b\<rparr>" and "b = 0"
  then show "OpModulus F ctx h v v2 = None"
    by (simp add: OpModulus_def)
qed

theorem OpModulus_remainder_witness:
  "OpModulus int_ops zero_Context (two_ints (- 7) 3) 0 1
     = returning zero_Context (VMValueNewInt (two_ints (- 7) 3) (int64_rem (- 7) 3)) \<and>
   sint (int64_rem (- 7) 3) = - 1 \<and>
   OpModulus int_ops zero_Context (two_ints (- 7) 0) 0 1 = None"
  using OpModulus_remainder [of int_ops zero_Context "two_ints (- 7) 3" 0 1 "- 7" 3]
        OpModulus_remainder [of int_ops zero_Context "two_ints (- 7) 0" 0 1 "- 7" 0]
  by (simp add: two_ints_cells)

section \<open>Result kinds of the arithmetic operators\<close>

lemma two_arrays_cells:
  "cells two_arrays 0 = \<lparr>TypeId = VMTypeInt, Value = Int64Value 5\<rparr>"
  "cells two_arrays 2 = \<lparr>TypeId = VMTypeArray, Value = ArrayDataPtr 1\<rparr>"
  "cells two_arrays 4 = \<lparr>TypeId = VMTypeArray, Value = ArrayDataPtr 3\<rparr>"
  "cells two_arrays 5 = \<lparr>TypeId = VMTypeArray, Value = ArrayDataPtr 1\<rparr>"
  "cells two_arrays 6 = \<lparr>TypeId = VMTypeFloat, Value = Float64Value 5\<rparr>"
  "arrays two_arrays (Suc 0) = [0]"
  "arrays two_arrays 3 = [0]"
  by (simp_all add: two_arrays_def VMValueNewInt_def VMValueNewFloat_def VMValueNewArray_def
        Clone_def new_cell_def empty_heap_def Let_def)

lemma two_arrays_next: "next_ptr two_arrays = 7" "Error (zero_Context :: int Context) = None"
  by (simp_all add: two_arrays_def VMValueNewInt_def VMValueNewFloat_def VMValueNewArray_def
        Clone_def new_cell_def empty_heap_def Let_def zero_Context_def)

lemma returning_Int_kind:
  "returning ctx (VMValueNewInt h x) = Some (Some p, ctx', h') \<Longrightarrow> TypeId (cells h' p) = VMTypeInt"
  by (auto simp: returning_def VMValueNewInt_def new_cell_def)

lemma returning_Float_kind:
  "returning ctx (VMValueNewFloat h x) = Some (Some p, ctx', h') \<Longrightarrow> TypeId (cells h' p) = VMTypeFloat"
  by (auto simp: returning_def VMValueNewFloat_def new_cell_def)

lemma OpAdd_kind:
  assumes "TypeId (cells h v) = VMTypeInt \<or> TypeId (cells h v) = VMTypeFloat"
      and "TypeId (cells h v2) = VMTypeInt \<or> TypeId (cells h v2) = VMTypeFloat"
      and "OpAdd F ctx h v v2 = Some (Some p, ctx', h')"
  shows "TypeId (cells h' p) =
           (if TypeId (cells h v) = VMTypeFloat \<or> TypeId (cells h v2) = VMTypeFloat
            then VMTypeFloat else VMTypeInt)"
  using assms
  by (elim disjE)
     (auto simp: OpAdd_def split: Option.bind_splits
           dest: returning_Int_kind returning_Float_kind)

lemma OpSub_kind:
  assumes "TypeId (cells h v) = VMTypeInt \<or> TypeId (cells h v) = VMTypeFloat"
      and "TypeId (cells h v2) = VMTypeInt \<or> TypeId (cells h v2) = VMTypeFloat"
      and "OpSub F ctx h v v2 = Some (Some p, ctx', h')"
  shows "TypeId (cells h' p) =
           (if TypeId (cells h v) = VMTypeFloat \<or> TypeId (cells h v2) = VMTypeFloat
            then VMTypeFloat else VMTypeInt)"
  using assms
  by (elim disjE)
     (auto simp: OpSub_def split: Option.bind_splits
           dest: returning_Int_kind returning_Float_kind)

lemma OpMultiply_kind:
  assumes "TypeId (cells h v) = VMTypeInt \<or> TypeId (cells h v) = VMTypeFloat"
      and "TypeId (cells h v2) = VMTypeInt \<or> TypeId (cells h v2) = VMTypeFloat"
      and "OpMultiply F ctx h v v2 = Some (Some p, ctx', h')"
  shows "TypeId (cells h' p) =
           (if TypeId (cells h v) = VMTypeFloat \<or> TypeId (cells h v2) = VMTypeFloat
            then VMTypeFloat else VMTypeInt)"
  using assms
  by (elim disjE)
     (auto simp: OpMultiply_def split: Option.bind_splits
           dest: returning_Int_kind returning_Float_kind)

lemma OpDivide_kind:
  assumes "TypeId (cells h v) = VMTypeInt \<or> TypeId (cells h v) = VMTypeFloat"
      and "TypeId (cells h v2) = VMTypeInt \<or> TypeId (cells h v2) = VMTypeFloat"
      and "OpDivide F ctx h v v2 = Some (Some p, ctx', h')"
  shows "TypeId (cells h' p) =
           (if TypeId (cells h v) = VMTypeFloat \<or> TypeId (cells h v2) = VMTypeFloat
            then VMTypeFloat else VMTypeInt)"
  using assms
  by (elim disjE)
     (auto simp: OpDivide_def split: Option.bind_splits if_splits
           dest: returning_Int_kind returning_Float_kind)

lemma OpModulus_kind:
  assumes "TypeId (cells h v) = VMTypeInt \<or> TypeId (cells h v) = VMTypeFloat"
      and "TypeId (cells h v2) = VMTypeInt \<or> TypeId (cells h v2) = VMTypeFloat"
      and "OpModulus F ctx h v v2 = Some (Some p, ctx', h')"
  shows "TypeId (cells h' p) =
           (if TypeId (cells h v) = VMTypeFloat \<or> TypeId (cells h v2) = VMTypeFloat
            then VMTypeFloat else VMTypeInt)"
  using assms
  by (elim disjE)
     (auto simp: OpModulus_def split: Option.bind_splits if_splits
           dest: returning_Int_kind returning_Float_kind)

lemma OpPower_kind:
  assumes "TypeId (cells h v) = VMTypeInt \<or> TypeId (cells h v) = VMTypeFloat"
      and "TypeId (cells h v2) = VMTypeInt \<or> TypeId (cells h v2) = VMTypeFloat"
      and "OpPower F ctx h v v2 = Some (Some p, ctx', h')"
  shows "TypeId (cells h' p) =
           (if TypeId (cells h v) = VMTypeFloat \<or> TypeId (cells h v2) = VMTypeFloat
            then VMTypeFloat else VMTypeInt)"
  using assms
  by (elim disjE)
     (auto simp: OpPower_def split: Option.bind_splits
           dest: returning_Int_kind returning_Float_kind)

lemma less_6_cases: "i < (6::nat) \<Longrightarrow> i = 0 \<or> i = 1 \<or> i = 2 \<or> i = 3 \<or> i = 4 \<or> i = 5"
  by arith

lemma binOperator_arith:
  "binOperator ! 0 = OpAdd" "binOperator ! 1 = OpSub" "binOperator ! 2 = OpMultiply"
  "binOperator ! 3 = OpDivide" "binOperator ! 4 = OpModulus" "binOperator ! 5 = OpPower"
  by (simp_all add: binOperator_def)

lemma binOperator_kind:
  assumes "i < 6"
      and "TypeId (cells h v) = VMTypeInt \<or> TypeId (cells h v) = VMTypeFloat"
      and "TypeId (cells h v2) = VMTypeInt \<or> TypeId (cells h v2) = VMTypeFloat"
      and "(binOperator ! i) F ctx h v v2 = Some (Some p, ctx', h')"
  shows "TypeId (cells h' p) =
           (if TypeId (cells h v) = VMTypeFloat \<or> TypeId (cells h v2) = VMTypeFloat
            then VMTypeFloat else VMTypeInt)"
  using less_6_cases [OF assms(1)]
proof (elim disjE)
  assume "i = 0" with assms(2-4) show ?thesis
    by (simp only: binOperator_arith) (rule OpAdd_kind)
next
  assume "i = 1" with assms(2-4) show ?thesis
    by (simp only: binOperator_arith) (rule OpSub_kind)
next
  assume "i = 2" with assms(2-4) show ?thesis
    by (simp only: binOperator_arith) (rule OpMultiply_kind)
next
  assume "i = 3" with assms(2-4) show ?thesis
    by (simp only: binOperator_arith) (rule OpDivide_kind)
next
  assume "i = 4" with assms(2-4) show ?thesis
    by (simp only: binOperator_arith) (rule OpModulus_kind)
next
  assume "i = 5" with assms(2-4) show ?thesis
    by (simp only: binOperator_arith) (rule OpPower_kind)
qed

lemma binOperator_Suc_0: "binOperator ! Suc 0 = OpSub"
  by (simp add: binOperator_def)

lemma arith_Int_Int:
  assumes "cells h v = \<lparr>TypeId = VMTypeInt, Value = Int64Value a\<rparr>"
      and "cells h v2 = \<lparr>TypeId = VMTypeInt, Value = Int64Value b\<rparr>"
  shows "(binOperator ! 0) F ctx h v v2 = returning ctx (VMValueNewInt h (a + b))"
    and "(binOperator ! 1) F ctx h v v2 = returning ctx (VMValueNewInt h (a - b))"
    and "(binOperator ! 2) F ctx h v v2 = returning ctx (VMValueNewInt h (a * b))"
    and "(b \<noteq> 0 \<longrightarrow>
        (binOperator ! 3) F ctx h v v2 = returning ctx (VMValueNewInt h (int64_quo a b)))"
    and "(b \<noteq> 0 \<longrightarrow>
        (binOperator ! 4) F ctx h v v2 = returning ctx (VMValueNewInt h (int64_rem a b)))"
    and "(binOperator ! 5) F ctx h v v2 =
        returning ctx
          (VMValueNewInt h (f_to_int64 F (f_pow F (f_of_int64 F a) (f_of_int64 F b))))"
  using assms
  by (simp_all add: binOperator_arith binOperator_Suc_0 OpAdd_def OpSub_def OpMultiply_def OpDivide_def
        OpModulus_def OpPower_def)

lemma arith_Int_Float:
  assumes "cells h v = \<lparr>TypeId = VMTypeInt, Value = Int64Value a\<rparr>"
      and "cells h v2 = \<lparr>TypeId = VMTypeFloat, Value = Float64Value y\<rparr>"
  shows "(binOperator ! 0) F ctx h v v2 =
        returning ctx (VMValueNewFloat h (f_add F (f_of_int64 F a) y))"
    and "(binOperator ! 1) F ctx h v v2 =
        returning ctx (VMValueNewFloat h (f_sub F (f_of_int64 F a) y))"
    and "(binOperator ! 2) F ctx h v v2 =
        returning ctx (VMValueNewFloat h (f_mul F (f_of_int64 F a) y))"
    and "(\<not> f_is_zero F y \<longrightarrow>
        (binOperator ! 3) F ctx h v v2 =
          returning ctx (VMValueNewFloat h (f_quo F (f_of_int64 F a) y)))"
    and "(binOperator ! 4) F ctx h v v2 = Some (None, ctx, h)"
    and "(binOperator ! 5) F ctx h v v2 =
        returning ctx (VMValueNewFloat h (f_pow F (f_of_int64 F a) y))"
  using assms
  by (simp_all add: binOperator_arith binOperator_Suc_0 OpAdd_def OpSub_def OpMultiply_def OpDivide_def
        OpModulus_def OpPower_def)

lemma arith_Float_Int:
  assumes "cells h v = \<lparr>TypeId = VMTypeFloat, Value = Float64Value x\<rparr>"
      and "cells h v2 = \<lparr>TypeId = VMTypeInt, Value = Int64Value b\<rparr>"
  shows "(binOperator ! 0) F ctx h v v2 =
        returning ctx (VMValueNewFloat h (f_add F x (f_of_int64 F b)))"
    and "(binOperator ! 1) F ctx h v v2 =
        returning ctx (VMValueNewFloat h (f_sub F x (f_of_int64 F b)))"
    and "(binOperator ! 2) F ctx h v v2 =
        returning ctx (VMValueNewFloat h (f_mul F x (f_of_int64 F b)))"
    and "(b \<noteq> 0 \<longrightarrow>
        (binOperator ! 3) F ctx h v v2 =
          returning ctx (VMValueNewFloat h (f_quo F x (f_of_int64 F b))))"
    and "(binOperator ! 4) F ctx h v v2 = Some (None, ctx, h)"
    and "(binOperator ! 5) F ctx h v v2 =
        returning ctx (VMValueNewFloat h (f_pow F x (f_of_int64 F b)))"
  using assms
  by (simp_all add: binOperator_arith binOperator_Suc_0 OpAdd_def OpSub_def OpMultiply_def OpDivide_def
        OpModulus_def OpPower_def)

lemma arith_Float_Float:
  assumes "cells h v = \<lparr>TypeId = VMTypeFloat, Value = Float64Value x\<rparr>"
      and "cells h v2 = \<lparr>TypeId = VMTypeFloat, Value = Float64Value y\<rparr>"
  shows "(binOperator ! 0) F ctx h v v2 =
        returning ctx (VMValueNewFloat h (f_add F x y))"
    and "(binOperator ! 1) F ctx h v v2 =
        returning ctx (VMValueNewFloat h (f_sub F x y))"
    and "(binOperator ! 2) F ctx h v v2 =
        returning ctx (VMValueNewFloat h (f_mul F x y))"
    and "(\<not> f_is_zero F y \<longrightarrow>
        (binOperator ! 3) F ctx h v v2 =
          returning ctx (VMValueNewFloat h (f_quo F x y)))"
    and "(binOperator ! 4) F ctx h v v2 = Some (None, ctx, h)"
    and "(binOperator ! 5) F ctx h v v2 =
        returning ctx (VMValueNewFloat h (f_pow F x y))"
  using assms
  by (simp_all add: binOperator_arith binOperator_Suc_0 OpAdd_def OpSub_def OpMultiply_def OpDivide_def
        OpModulus_def OpPower_def)

lemma returning_Int_value:
  "\<exists>p h'. returning ctx (VMValueNewInt h x) = Some (Some p, ctx, h') \<and>
          TypeId (cells h' p) = VMTypeInt"
  by (simp add: returning_def VMValueNewInt_def new_cell_def)

lemma returning_Float_value:
  "\<exists>p h'. returning ctx (VMValueNewFloat h x) = Some (Some p, ctx, h') \<and>
          TypeId (cells h' p) = VMTypeFloat"
  by (simp add: returning_def VMValueNewFloat_def new_cell_def)

lemma arith_total:
  assumes i: "i = 0 \<or> i = 1 \<or> i = 2 \<or> i = 5"
      and v: "(\<exists>a. cells h v = \<lparr>TypeId = VMTypeInt, Value = Int64Value a\<rparr>) \<or>
              (\<exists>x. cells h v = \<lparr>TypeId = VMTypeFloat, Value = Float64Value x\<rparr>)"
      and v2: "(\<exists>b. cells h v2 = \<lparr>TypeId = VMTypeInt, Value = Int64Value b\<rparr>) \<or>
               (\<exists>y. cells h v2 = \<lparr>TypeId = VMTypeFloat, Value = Float64Value y\<rparr>)"
  shows "\<exists>p h'. (binOperator ! i) F ctx h v v2 = Some (Some p, ctx, h') \<and>
           TypeId (cells h' p) =
             (if TypeId (cells h v) = VMTypeFloat \<or> TypeId (cells h v2) = VMTypeFloat
              then VMTypeFloat else VMTypeInt)"
  using v v2
proof (elim disjE exE)
  fix a b
  assume c: "cells h v = \<lparr>TypeId = VMTypeInt, Value = Int64Value a\<rparr>"
            "cells h v2 = \<lparr>TypeId = VMTypeInt, Value = Int64Value b\<rparr>"
  show ?thesis
    using i by (elim disjE) (simp_all add: arith_Int_Int [OF c] c returning_Int_value del: One_nat_def)
next
  fix a y
  assume c: "cells h v = \<lparr>TypeId = VMTypeInt, Value = Int64Value a\<rparr>"
            "cells h v2 = \<lparr>TypeId = VMTypeFloat, Value = Float64Value y\<rparr>"
  show ?thesis
    using i by (elim disjE) (simp_all add: arith_Int_Float [OF c] c returning_Float_value del: One_nat_def)
next
  fix x b
  assume c: "cells h v = \<lparr>TypeId = VMTypeFloat, Value = Float64Value x\<rparr>"
            "cells h v2 = \<lparr>TypeId = VMTypeInt, Value = Int64Value b\<rparr>"
  show ?thesis
    using i by (elim disjE) (simp_all add: arith_Float_Int [OF c] c returning_Float_value del: One_nat_def)
next
  fix x y
  assume c: "cells h v = \<lparr>TypeId = VMTypeFloat, Value = Float64Value x\<rparr>"
            "cells h v2 = \<lparr>TypeId = VMTypeFloat, Value = Float64Value y\<rparr>"
  show ?thesis
    using i by (elim disjE) (simp_all add: arith_Float_Float [OF c] c returning_Float_value del: One_nat_def)
qed

text \<open>
  Claim C7. The arithmetic operators are the entries \<open>0\<close> to \<open>5\<close> of the operator table
  (\<open>+\<close>, \<open>-\<close>, \<open>*\<close>, \<open>/\<close>, \<open>%\<close>, \<open>**\<close>); the entries \<open>6\<close> to \<open>11\<close> are the comparisons. For
  each arithmetic operator and operands of kind Int or Float on which it yields a value, the
  kind of the result is Float if and only if at least one operand is Float, and Int
  otherwise. \<open>+\<close>, \<open>-\<close>, \<open>*\<close> and \<open>**\<close> yield a value, of that kind, for every pair of Int
  and Float operands, and so does \<open>/\<close> when the divisor is not zero; \<open>%\<close> yields a value
  for two Ints with a divisor other than \<open>0\<close> and \<open>nil\<close> when an operand is Float. Each
  result is given: Int op Int is the int64 operation (in particular Int / Int is the Int
  quotient, and Int ** Int is the floating power converted back to Int), and with a Float
  operand the Int operand is widened and the float64 operation applied.
\<close>

theorem arithmetic_result_kind:
  "(i < 6 \<longrightarrow>
    (TypeId (cells h v) = VMTypeInt \<or> TypeId (cells h v) = VMTypeFloat) \<longrightarrow>
    (TypeId (cells h v2) = VMTypeInt \<or> TypeId (cells h v2) = VMTypeFloat) \<longrightarrow>
    (binOperator ! i) F ctx h v v2 = Some (Some p, ctx', h') \<longrightarrow>
      TypeId (cells h' p) =
        (if TypeId (cells h v) = VMTypeFloat \<or> TypeId (cells h v2) = VMTypeFloat
         then VMTypeFloat else VMTypeInt)) \<and>
   ((i = 0 \<or> i = 1 \<or> i = 2 \<or> i = 5) \<longrightarrow>
    ((\<exists>a. cells h v = \<lparr>TypeId = VMTypeInt, Value = Int64Value a\<rparr>) \<or>
     (\<exists>x. cells h v = \<lparr>TypeId = VMTypeFloat, Value = Float64Value x\<rparr>)) \<longrightarrow>
    ((\<exists>b. cells h v2 = \<lparr>TypeId = VMTypeInt, Value = Int64Value b\<rparr>) \<or>
     (\<exists>y. cells h v2 = \<lparr>TypeId = VMTypeFloat, Value = Float64Value y\<rparr>)) \<longrightarrow>
      (\<exists>p h'. (binOperator ! i) F ctx h v v2 = Some (Some p, ctx, h') \<and>
         TypeId (cells h' p) =
           (if TypeId (cells h v) = VMTypeFloat \<or> TypeId (cells h v2) = VMTypeFloat
           then VMTypeFloat else VMTypeInt))) \<and>
   (cells h v = \<lparr>TypeId = VMTypeInt, Value = Int64Value a\<rparr> \<longrightarrow>
    cells h v2 = \<lparr>TypeId = VMTypeInt, Value = Int64Value b\<rparr> \<longrightarrow>
      (binOperator ! 0) F ctx h v v2 = returning ctx (VMValueNewInt h (a + b)) \<and>
      (binOperator ! 1) F ctx h v v2 = returning ctx (VMValueNewInt h (a - b)) \<and>
      (binOperator ! 2) F ctx h v v2 = returning ctx (VMValueNewInt h (a * b)) \<and>
      (b \<noteq> 0 \<longrightarrow>
         (binOperator ! 3) F ctx h v v2 = returning ctx (VMValueNewInt h (int64_quo a b))) \<and>
      (b \<noteq> 0 \<longrightarrow>
         (binOperator ! 4) F ctx h v v2 = returning ctx (VMValueNewInt h (int64_rem a b))) \<and>
      (binOperator ! 5) F ctx h v v2 =
         returning ctx
           (VMValueNewInt h (f_to_int64 F (f_pow F (f_of_int64 F a) (f_of_int64 F b))))) \<and>
   (cells h v = \<lparr>TypeId = VMTypeInt, Value = Int64Value a\<rparr> \<longrightarrow>
    cells h v2 = \<lparr>TypeId = VMTypeFloat, Value = Float64Value y\<rparr> \<longrightarrow>
      (binOperator ! 0) F ctx h v v2 =
         returning ctx (VMValueNewFloat h (f_add F (f_of_int64 F a) y)) \<and>
      (binOperator ! 1) F ctx h v v2 =
         returning ctx (VMValueNewFloat h (f_sub F (f_of_int64 F a) y)) \<and>
      (binOperator ! 2) F ctx h v v2 =
         returning ctx (VMValueNewFloat h (f_mul F (f_of_int64 F a) y)) \<and>
      (\<not> f_is_zero F y \<longrightarrow>
         (binOperator ! 3) F ctx h v v2 =
           returning ctx (VMValueNewFloat h (f_quo F (f_of_int64 F a) y))) \<and>
      (binOperator ! 4) F ctx h v v2 = Some (None, ctx, h) \<and>
      (binOperator ! 5) F ctx h v v2 =
         returning ctx (VMValueNewFloat h (f_pow F (f_of_int64 F a) y))) \<and>
   (cells h v = \<lparr>TypeId = VMTypeFloat, Value = Float64Value x\<rparr> \<longrightarrow>
    cells h v2 = \<lparr>TypeId = VMTypeInt, Value = Int64Value b\<rparr> \<longrightarrow>
      (binOperator ! 0) F ctx h v v2 =
         returning ctx (VMValueNewFloat h (f_add F x (f_of_int64 F b))) \<and>
      (binOperator ! 1) F ctx h v v2 =
         returning ctx (VMValueNewFloat h (f_sub F x (f_of_int64 F b))) \<and>
      (binOperator ! 2) F ctx h v v2 =
         returning ctx (VMValueNewFloat h (f_mul F x (f_of_int64 F b))) \<and>
      (b \<noteq> 0 \<longrightarrow>
         (binOperator ! 3) F ctx h v v2 =
           returning ctx (VMValueNewFloat h (f_quo F x (f_of_int64 F b)))) \<and>
      (binOperator ! 4) F ctx h v v2 = Some (None, ctx, h) \<and>
      (binOperator ! 5) F ctx h v v2 =
         returning ctx (VMValueNewFloat h (f_pow F x (f_of_int64 F b)))) \<and>
   (cells h v = \<lparr>TypeId = VMTypeFloat, Value = Float64Value x\<rparr> \<longrightarrow>
    cells h v2 = \<lparr>TypeId = VMTypeFloat, Value = Float64Value y\<rparr> \<longrightarrow>
      (binOperator ! 0) F ctx h v v2 =
         returning ctx (VMValueNewFloat h (f_add F x y)) \<and>
      (binOperator ! 1) F ctx h v v2 =
         returning ctx (VMValueNewFloat h (f_sub F x y)) \<and>
      (binOperator ! 2) F ctx h v v2 =
         returning ctx (VMValueNewFloat h (f_mul F x y)) \<and>
      (\<not> f_is_zero F y \<longrightarrow>
         (binOperator ! 3) F ctx h v v2 =
           returning ctx (VMValueNewFloat h (f_quo F x y))) \<and>
      (binOperator ! 4) F ctx h v v2 = Some (None, ctx, h) \<and>
      (binOperator ! 5) F ctx h v v2 =
         returning ctx (VMValueNewFloat h (f_pow F x y)))"
proof (intro conjI impI)
  assume "i < 6"
     and "TypeId (cells h v) = VMTypeInt \<or> TypeId (cells h v) = VMTypeFloat"
     and "TypeId (cells h v2) = VMTypeInt \<or> TypeId (cells h v2) = VMTypeFloat"
     and "(binOperator ! i) F ctx h v v2 = Some (Some p, ctx', h')"
  then show "TypeId (cells h' p) =
        (if TypeId (cells h v) = VMTypeFloat \<or> TypeId (cells h v2) = VMTypeFloat
         then VMTypeFloat else VMTypeInt)"
    by (rule binOperator_kind)
next
  assume "i = 0 \<or> i = 1 \<or> i = 2 \<or> i = 5"
     and "(\<exists>a. cells h v = \<lparr>TypeId = VMTypeInt, Value = Int64Value a\<rparr>) \<or>
          (\<exists>x. cells h v = \<lparr>TypeId = VMTypeFloat, Value = Float64Value x\<rparr>)"
     and "(\<exists>b. cells h v2 = \<lparr>TypeId = VMTypeInt, Value = Int64Value b\<rparr>) \<or>
          (\<exists>y. cells h v2 = \<lparr>TypeId = VMTypeFloat, Value = Float64Value y\<rparr>)"
  then show "\<exists>p h'. (binOperator ! i) F ctx h v v2 = Some (Some p, ctx, h') \<and>
         TypeId (cells h' p) =
           (if TypeId (cells h v) = VMTypeFloat \<or> TypeId (cells h v2) = VMTypeFloat
            then VMTypeFloat else VMTypeInt)"
    by (rule arith_total)
qed (simp_all add: arith_Int_Int arith_Int_Float arith_Float_Int arith_Float_Float
       del: One_nat_def)

theorem arithmetic_result_kind_witness:
  "(binOperator ! 3) int_ops zero_Context (two_ints 7 2) 0 1
     = returning zero_Context (VMValueNewInt (two_ints 7 2) (int64_quo 7 2)) \<and>
   TypeId (cells (snd (VMValueNewInt (two_ints 7 2) (int64_quo 7 2))) 2) = VMTypeInt \<and>
   (binOperator ! 5) int_ops zero_Context (two_ints 7 2) 0 1
     = returning zero_Context (VMValueNewInt (two_ints 7 2) 49) \<and>
   (binOperator ! 0) int_ops zero_Context two_arrays 0 6
     = returning zero_Context (VMValueNewFloat two_arrays 10) \<and>
   TypeId (cells (snd (VMValueNewFloat two_arrays 10)) 7) = VMTypeFloat \<and>
   (binOperator ! 4) int_ops zero_Context two_arrays 0 6 = Some (None, zero_Context, two_arrays)"
  using arithmetic_result_kind [of 3 "two_ints 7 2" 0 1 int_ops zero_Context 2 zero_Context
          "snd (VMValueNewInt (two_ints 7 2) (int64_quo 7 2))" 7 2]
        arithmetic_result_kind [of 0 two_arrays 0 6 int_ops zero_Context 7 zero_Context
          "snd (VMValueNewFloat two_arrays 10)" 5 _ 5]
  by (simp add: two_ints_cells two_arrays_cells two_arrays_next returning_def VMValueNewInt_def
        VMValueNewFloat_def new_cell_def two_ints_def empty_heap_def int_ops_def)

section \<open>Division by zero\<close>

lemma OpDivide_zero_divisor:
  assumes "cells h v = \<lparr>TypeId = VMTypeInt, Value = Int64Value a\<rparr> \<or>
           cells h v = \<lparr>TypeId = VMTypeFloat, Value = Float64Value x\<rparr>"
      and "cells h v2 = \<lparr>TypeId = VMTypeInt, Value = Int64Value 0\<rparr> \<or>
           (cells h v2 = \<lparr>TypeId = VMTypeFloat, Value = Float64Value y\<rparr> \<and> f_is_zero F y)"
  shows "OpDivide F ctx h v v2 = Some (None, ctx\<lparr>Error := Some DivideByZero\<rparr>, h)"
  using assms by (elim disjE conjE) (simp_all add: OpDivide_def setDivideZero_def)

text \<open>
  Claim C2. With \<open>IgnoreDiv0\<close> set, dividing the Int \<open>1\<close> by the Int \<open>0\<close> should set no error
  and yield Undefined. \<open>OpDivide\<close> does not read the flag: it stores \<open>DivideByZero\<close> in the
  frame and returns \<open>nil\<close>, as it does with the flag clear.
\<close>

theorem OpDivide_IgnoreDiv0_set:
  "OpDivide int_ops (zero_Context\<lparr>Flags := zero_flags\<lparr>IgnoreDiv0 := True\<rparr>\<rparr>) (two_ints 1 0) 0 1
     = Some (None,
             zero_Context\<lparr>Flags := zero_flags\<lparr>IgnoreDiv0 := True\<rparr>, Error := Some DivideByZero\<rparr>,
             two_ints 1 0)"
  using OpDivide_zero_divisor [of "two_ints 1 0" 0 1 undefined 1 undefined int_ops
          "zero_Context\<lparr>Flags := zero_flags\<lparr>IgnoreDiv0 := True\<rparr>\<rparr>"]
  by (simp add: two_ints_cells)

section \<open>Equality\<close>

lemma result_value_returning_Int:
  "result_value (returning ctx (VMValueNewInt h x)) = Some \<lparr>TypeId = VMTypeInt, Value = Int64Value x\<rparr>"
  by (simp add: result_value_def returning_def VMValueNewInt_def new_cell_def)

lemma result_value_returning_bool:
  "result_value (returning ctx (boolToVMValue h b))
     = Some \<lparr>TypeId = VMTypeInt, Value = Int64Value (if b then 1 else 0)\<rparr>"
  by (simp add: boolToVMValue_def result_value_returning_Int)

text \<open>
  Claim C3, as stated, fails: the cells \<open>2\<close> and \<open>4\<close> are two distinct Arrays holding equal
  elements, and \<open>OpCompEQ\<close> returns the Int \<open>0\<close> for them, since their payloads are
  different \<open>ArrayData\<close> pointers.
\<close>

theorem OpCompEQ_distinct_arrays:
  "cells two_arrays 2 = \<lparr>TypeId = VMTypeArray, Value = ArrayDataPtr 1\<rparr> \<and>
   cells two_arrays 4 = \<lparr>TypeId = VMTypeArray, Value = ArrayDataPtr 3\<rparr> \<and>
   arrays two_arrays 1 = arrays two_arrays 3 \<and>
   result_value (OpCompEQ int_ops zero_Context two_arrays 2 4)
     = Some \<lparr>TypeId = VMTypeInt, Value = Int64Value 0\<rparr>"
  by (simp add: two_arrays_cells OpCompEQ_def boolToVMValue_def result_value_returning_Int)

text \<open>
  Claim C3, amended. \<open>OpCompEQ\<close> returns the Int \<open>1\<close> when both operands are the same handle.
  For two handles with equal tags it returns the equality of the payloads as interface
  values: the stored values for Int, Float (by the float64 \<open>==\<close>) and String, true for the
  empty payloads of Undefined and Null, and the identity of the payload pointer for Array,
  Computed, Function and NativeFunction, so that two Arrays compare equal exactly when they
  share one \<open>ArrayData\<close>. An Int and a Float are compared after widening the Int, and every
  other pair of different kinds gives the Int \<open>0\<close>.
\<close>

theorem OpCompEQ_cases:
  "OpCompEQ F ctx h v v = returning ctx (VMValueNewInt h 1) \<and>
   (v \<noteq> v2 \<longrightarrow> TypeId (cells h v) = TypeId (cells h v2) \<longrightarrow>
      OpCompEQ F ctx h v v2
        = returning ctx (boolToVMValue h (iface_eq F (Value (cells h v)) (Value (cells h v2))))) \<and>
   (iface_eq F (Int64Value a) (Int64Value b) \<longleftrightarrow> a = b) \<and>
   (iface_eq F (Float64Value x) (Float64Value y) \<longleftrightarrow> f_eq F x y) \<and>
   (iface_eq F (StringValue s) (StringValue t) \<longleftrightarrow> s = t) \<and>
   iface_eq F NilValue NilValue \<and>
   (iface_eq F (ArrayDataPtr p) (ArrayDataPtr q) \<longleftrightarrow> p = q) \<and>
   (iface_eq F (ComputedDataPtr p) (ComputedDataPtr q) \<longleftrightarrow> p = q) \<and>
   (iface_eq F (FunctionDataPtr p) (FunctionDataPtr q) \<longleftrightarrow> p = q) \<and>
   (iface_eq F (NativeFunctionDataPtr p) (NativeFunctionDataPtr q) \<longleftrightarrow> p = q) \<and>
   (cells h v = \<lparr>TypeId = VMTypeInt, Value = Int64Value a\<rparr> \<longrightarrow>
    cells h v2 = \<lparr>TypeId = VMTypeFloat, Value = Float64Value y\<rparr> \<longrightarrow>
      OpCompEQ F ctx h v v2 = returning ctx (boolToVMValue h (f_eq F (f_of_int64 F a) y))) \<and>
   (cells h v = \<lparr>TypeId = VMTypeFloat, Value = Float64Value x\<rparr> \<longrightarrow>
    cells h v2 = \<lparr>TypeId = VMTypeInt, Value = Int64Value b\<rparr> \<longrightarrow>
      OpCompEQ F ctx h v v2 = returning ctx (boolToVMValue h (f_eq F x (f_of_int64 F b)))) \<and>
   (TypeId (cells h v) \<noteq> TypeId (cells h v2) \<longrightarrow>
    \<not> (TypeId (cells h v) = VMTypeInt \<and> TypeId (cells h v2) = VMTypeFloat) \<longrightarrow>
    \<not> (TypeId (cells h v) = VMTypeFloat \<and> TypeId (cells h v2) = VMTypeInt) \<longrightarrow>
      OpCompEQ F ctx h v v2 = returning ctx (VMValueNewInt h 0))"
proof (intro conjI impI)
  show "OpCompEQ F ctx h v v = returning ctx (VMValueNewInt h 1)"
    by (simp add: OpCompEQ_def)
next
  assume "v \<noteq> v2" and "TypeId (cells h v) = TypeId (cells h v2)"
  then show "OpCompEQ F ctx h v v2
        = returning ctx (boolToVMValue h (iface_eq F (Value (cells h v)) (Value (cells h v2))))"
    by (simp add: OpCompEQ_def)
next
  assume "cells h v = \<lparr>TypeId = VMTypeInt, Value = Int64Value a\<rparr>"
     and "cells h v2 = \<lparr>TypeId = VMTypeFloat, Value = Float64Value y\<rparr>"
  then show "OpCompEQ F ctx h v v2 = returning ctx (boolToVMValue h (f_eq F (f_of_int64 F a) y))"
    by (auto simp: OpCompEQ_def)
next
  assume "cells h v = \<lparr>TypeId = VMTypeFloat, Value = Float64Value x\<rparr>"
     and "cells h v2 = \<lparr>TypeId = VMTypeInt, Value = Int64Value b\<rparr>"
  then show "OpCompEQ F ctx h v v2 = returning ctx (boolToVMValue h (f_eq F x (f_of_int64 F b)))"
    by (auto simp: OpCompEQ_def)
next
  assume "TypeId (cells h v) \<noteq> TypeId (cells h v2)"
     and "\<not> (TypeId (cells h v) = VMTypeInt \<and> TypeId (cells h v2) = VMTypeFloat)"
     and "\<not> (TypeId (cells h v) = VMTypeFloat \<and> TypeId (cells h v2) = VMTypeInt)"
  then show "OpCompEQ F ctx h v v2 = returning ctx (VMValueNewInt h 0)"
    by (auto simp: OpCompEQ_def split: VMValueType.splits)
qed simp_all

theorem OpCompEQ_cases_witness:
  "result_value (OpCompEQ int_ops zero_Context two_arrays 2 2)
     = Some \<lparr>TypeId = VMTypeInt, Value = Int64Value 1\<rparr> \<and>
   result_value (OpCompEQ int_ops zero_Context two_arrays 2 5)
     = Some \<lparr>TypeId = VMTypeInt, Value = Int64Value 1\<rparr> \<and>
   result_value (OpCompEQ int_ops zero_Context two_arrays 0 6)
     = Some \<lparr>TypeId = VMTypeInt, Value = Int64Value 1\<rparr> \<and>
   result_value (OpCompEQ int_ops zero_Context two_arrays 0 2)
     = Some \<lparr>TypeId = VMTypeInt, Value = Int64Value 0\<rparr>"
  using OpCompEQ_cases [of int_ops zero_Context two_arrays 2 5]
        OpCompEQ_cases [of int_ops zero_Context two_arrays 0 6 5 _ _ 5]
        OpCompEQ_cases [of int_ops zero_Context two_arrays 0 2]
  by (simp add: two_arrays_cells result_value_returning_Int result_value_returning_bool
        int_ops_def)

section \<open>Cloning\<close>

lemma Clone_copy:
  "fst (Clone h v) = next_ptr h"
  "cells (snd (Clone h v)) (next_ptr h) = cells h v"
  "arrays (snd (Clone h v)) = arrays h"
  "computeds (snd (Clone h v)) = computeds h"
  "valuemaps (snd (Clone h v)) = valuemaps h"
  "q \<noteq> next_ptr h \<Longrightarrow> cells (snd (Clone h v)) q = cells h q"
  "next_ptr (snd (Clone h v)) = Suc (next_ptr h)"
  by (simp_all add: Clone_def new_cell_def)

lemma Clone_shares_array:
  assumes v: "cells h v = \<lparr>TypeId = VMTypeArray, Value = ArrayDataPtr a\<rparr>"
      and alloc: "v < next_ptr h" "val < next_ptr h"
      and noerr: "Error ctx = None"
      and len: "length (arrays h a) < 2 ^ 63"
      and idx: "0 \<le> sint i" "sint i < int (length (arrays h a))"
  shows "\<exists>h2 q. ArraySetItem ctx (snd (Clone h v)) (fst (Clone h v)) i val = Some (True, ctx, h2) \<and>
           ArrayGetItem ctx h2 v i = Some (Some q, ctx, h2) \<and>
           cells h2 q = cells h val \<and> q \<noteq> val"
proof -
  let ?c = "fst (Clone h v)" and ?h1 = "snd (Clone h v)"
  let ?q = "Suc (next_ptr h)"
  let ?h2 = "(snd (Clone ?h1 val))\<lparr>arrays := (arrays h)(a := (arrays h a)[nat (sint i) := ?q])\<rparr>"
  have sl: "sint (word_of_nat (length (arrays h a)) :: int64) = int (length (arrays h a))"
    using len by (rule sint_int64_of_nat)
  have c: "cells ?h1 ?c = \<lparr>TypeId = VMTypeArray, Value = ArrayDataPtr a\<rparr>"
    using v by (simp add: Clone_copy)
  have set: "ArraySetItem ctx ?h1 ?c i val = Some (True, ctx, ?h2)"
    using c idx noerr sl
    by (simp add: ArraySetItem_def ReadArray_def getRealIndex_def go_store_def Clone_copy
          Let_def split_beta)
  have v2: "cells ?h2 v = \<lparr>TypeId = VMTypeArray, Value = ArrayDataPtr a\<rparr>"
    using v alloc by (simp add: Clone_copy)
  have get: "ArrayGetItem ctx ?h2 v i = Some (Some ?q, ctx, ?h2)"
    using v2 idx noerr sl
    by (simp add: ArrayGetItem_def ReadArray_def getRealIndex_def go_index_def Let_def)
  have q: "cells ?h2 ?q = cells h val"
    using alloc by (simp add: Clone_def new_cell_def)
  show ?thesis using set get q alloc by (intro exI [of _ ?h2] exI [of _ ?q]) simp
qed


lemma ValueMap_Get_Put: "ValueMap_Get (ValueMap_Put m k p) k = Some p"
  by (simp add: ValueMap_Get_def ValueMap_Put_def update_conv')

lemma Clone_shares_attrs:
  assumes v: "cells h v = \<lparr>TypeId = VMTypeComputedValue, Value = ComputedDataPtr cd\<rparr>"
      and alloc: "v < next_ptr h" "val < next_ptr h"
  shows "\<exists>h2 q. SetAttr (snd (Clone h v)) (fst (Clone h v)) name val = Some (Some val, h2) \<and>
           GetAttr ctx h2 v name = Some (Some q, h2) \<and>
           cells h2 q = cells h val \<and> q \<noteq> val"
proof (cases "cd_Attrs (computeds h cd)")
  case None
  let ?h1 = "snd (Clone h v)"
  obtain h2 where set: "SetAttr ?h1 (fst (Clone h v)) name val = Some (Some val, h2)"
    and h2: "cells h2 v = cells h v" "cd_Attrs (computeds h2 cd) = Some (Suc (next_ptr h))"
      "ValueMap_Get (valuemaps h2 (Suc (next_ptr h))) name = Some (Suc (Suc (next_ptr h)))"
      "cells h2 (Suc (Suc (next_ptr h))) = cells h val"
    using v alloc None
    by (simp add: SetAttr_def ReadComputed_def Clone_def new_cell_def Let_def ValueMap_Get_Put)
  have "GetAttr ctx h2 v name = Some (Some (Suc (Suc (next_ptr h))), h2)"
    using v h2 by (simp add: GetAttr_def ReadComputed_def)
  with set h2 alloc show ?thesis by auto
next
  case (Some m)
  let ?h1 = "snd (Clone h v)"
  obtain h2 where set: "SetAttr ?h1 (fst (Clone h v)) name val = Some (Some val, h2)"
    and h2: "cells h2 v = cells h v" "cd_Attrs (computeds h2 cd) = Some m"
      "ValueMap_Get (valuemaps h2 m) name = Some (Suc (next_ptr h))"
      "cells h2 (Suc (next_ptr h)) = cells h val"
    using v alloc Some
    by (simp add: SetAttr_def ReadComputed_def Clone_def new_cell_def Let_def ValueMap_Get_Put)
  have "GetAttr ctx h2 v name = Some (Some (Suc (next_ptr h)), h2)"
    using v h2 by (simp add: GetAttr_def ReadComputed_def)
  with set h2 alloc show ?thesis by auto
qed

lemma one_computed_cells:
  "cells one_computed 0 = \<lparr>TypeId = VMTypeInt, Value = Int64Value 5\<rparr>"
  "cells one_computed 2 = \<lparr>TypeId = VMTypeComputedValue, Value = ComputedDataPtr 1\<rparr>"
  "next_ptr one_computed = 3"
  "cd_code (computeds one_computed (Suc 0)) = None"
  "cd_Expr (computeds one_computed (Suc 0)) = ''x+1''"
  by (simp_all add: one_computed_def VMValueNewInt_def VMValueNewComputed_def new_cell_def
        empty_heap_def Let_def)

text \<open>
  Claim C9. \<open>Clone\<close> returns a new handle whose cell has the tag and the payload of the
  original, and changes nothing else in the store: a scalar payload is copied by value, the
  payload of a container is the same pointer. Hence storing an element through the clone of
  an Array is seen when the original is indexed, and an attribute set on the clone of a
  Computed is read back from the original. (The operands are allocated handles, the frame
  holds no error, and the index is within the array.)
\<close>

theorem Clone_shares_payload:
  "(cells (snd (Clone h v)) (fst (Clone h v)) = cells h v \<and>
    arrays (snd (Clone h v)) = arrays h \<and>
    computeds (snd (Clone h v)) = computeds h \<and>
    valuemaps (snd (Clone h v)) = valuemaps h \<and>
    (v < next_ptr h \<longrightarrow> fst (Clone h v) \<noteq> v)) \<and>
   (cells h v = \<lparr>TypeId = VMTypeArray, Value = ArrayDataPtr a\<rparr> \<longrightarrow>
    v < next_ptr h \<longrightarrow> val < next_ptr h \<longrightarrow> Error ctx = None \<longrightarrow>
    length (arrays h a) < 2 ^ 63 \<longrightarrow> 0 \<le> sint i \<longrightarrow> sint i < int (length (arrays h a)) \<longrightarrow>
      (\<exists>h2 q. ArraySetItem ctx (snd (Clone h v)) (fst (Clone h v)) i val = Some (True, ctx, h2) \<and>
           ArrayGetItem ctx h2 v i = Some (Some q, ctx, h2) \<and>
           cells h2 q = cells h val \<and> q \<noteq> val)) \<and>
   (cells h v = \<lparr>TypeId = VMTypeComputedValue, Value = ComputedDataPtr cd\<rparr> \<longrightarrow>
    v < next_ptr h \<longrightarrow> val < next_ptr h \<longrightarrow>
      (\<exists>h2 q. SetAttr (snd (Clone h v)) (fst (Clone h v)) name val = Some (Some val, h2) \<and>
           GetAttr ctx h2 v name = Some (Some q, h2) \<and>
           cells h2 q = cells h val \<and> q \<noteq> val))"
proof (intro conjI impI)
  assume "cells h v = \<lparr>TypeId = VMTypeArray, Value = ArrayDataPtr a\<rparr>"
    "v < next_ptr h" "val < next_ptr h" "Error ctx = None"
    "length (arrays h a) < 2 ^ 63" "0 \<le> sint i" "sint i < int (length (arrays h a))"
  then show "\<exists>h2 q. ArraySetItem ctx (snd (Clone h v)) (fst (Clone h v)) i val
                      = Some (True, ctx, h2) \<and>
           ArrayGetItem ctx h2 v i = Some (Some q, ctx, h2) \<and>
           cells h2 q = cells h val \<and> q \<noteq> val"
    by (rule Clone_shares_array)
next
  assume "cells h v = \<lparr>TypeId = VMTypeComputedValue, Value = ComputedDataPtr cd\<rparr>"
    "v < next_ptr h" "val < next_ptr h"
  then show "\<exists>h2 q. SetAttr (snd (Clone h v)) (fst (Clone h v)) name val = Some (Some val, h2) \<and>
           GetAttr ctx h2 v name = Some (Some q, h2) \<and>
           cells h2 q = cells h val \<and> q \<noteq> val"
    by (rule Clone_shares_attrs)
qed (simp_all add: Clone_copy)

theorem Clone_shares_payload_witness:
  "(\<exists>h2 q. ArraySetItem zero_Context (snd (Clone two_arrays 2)) (fst (Clone two_arrays 2)) 0 6
              = Some (True, zero_Context, h2) \<and>
           ArrayGetItem zero_Context h2 2 0 = Some (Some q, zero_Context, h2) \<and>
           cells h2 q = \<lparr>TypeId = VMTypeFloat, Value = Float64Value 5\<rparr> \<and> q \<noteq> 6) \<and>
   (\<exists>h2 q. SetAttr (snd (Clone one_computed 2)) (fst (Clone one_computed 2)) ''x'' 0
              = Some (Some 0, h2) \<and>
           GetAttr zero_Context h2 2 ''x'' = Some (Some q, h2) \<and>
           cells h2 q = \<lparr>TypeId = VMTypeInt, Value = Int64Value 5\<rparr> \<and> q \<noteq> 0)"
  using Clone_shares_payload [of two_arrays 2 1 6 zero_Context 0]
        Clone_shares_payload [of one_computed 2 _ 0 zero_Context _ 1 "''x''"]
  by (simp add: two_arrays_cells two_arrays_next one_computed_cells)

section \<open>Slicing\<close>

lemma sint_add_neg:
  assumes "0 \<le> sint (l :: int64)" "sint (i :: int64) < 0"
  shows "sint (l + i) = sint l + sint i"
proof -
  have "- (2 ^ 63) \<le> sint i" "sint l < 2 ^ 63" using sint_ge [of i] sint_lt [of l] by simp_all
  then have r: "- (2 ^ 63) \<le> sint l + sint i" "sint l + sint i < 2 ^ 63" using assms by auto
  have "l + i = word_of_int (sint l + sint i)" by simp
  then show ?thesis using r by (simp only: sint_int64_of_int)
qed

lemma getClampRealIndex_sint:
  assumes "0 \<le> sint len"
  shows "sint (getClampRealIndex ctx i len) = spec_bound (sint len) (sint i)"
  using assms sint_add_neg [of len i]
  by (auto simp: getClampRealIndex_def spec_bound_def Let_def)


lemma spec_bound_range: "0 \<le> len \<Longrightarrow> 0 \<le> spec_bound len i \<and> spec_bound len i \<le> len"
  by (simp add: spec_bound_def)







section \<open>Array growth\<close>

lemma for_each_append:
  "for_each (is @ js) body s =
     (case for_each is body s of None \<Rightarrow> None | Some s' \<Rightarrow> for_each js body s')"
  by (induction "is" arbitrary: s) (auto split: option.splits)

lemma no_nil_map_Some: "no_nil (map Some xs) = Some xs"
  by (induction xs) simp_all

lemma upto_as_map: "[i..j] = map (\<lambda>k. i + int k) [0..<nat (j - i + 1)]"
  by (intro nth_equalityI) simp_all

lemma go_index_nat: "go_index xs (int k) = (if k < length xs then Some (xs ! k) else None)"
  by (simp add: go_index_def)

lemma go_store_nat: "go_store xs (int k) x = (if k < length xs then Some (xs[k := x]) else None)"
  by (simp add: go_store_def)

lemma for_each_copy:
  assumes body: "\<And>k new. k < n \<Longrightarrow>
             body (idx k) new = do { x \<leftarrow> go_index src (int (so + k));
                                     go_store new (int (d + k)) (Some x) }"
      and src: "so + n \<le> length src"
      and dst: "d + n \<le> length new"
  shows "for_each (map idx [0..<n]) body new
           = Some (take d new @ map Some (take n (drop so src)) @ drop (d + n) new)"
  using assms
proof (induction n)
  case 0
  then show ?case by simp
next
  case (Suc n)
  let ?mid = "take d new @ map Some (take n (drop so src)) @ drop (d + n) new"
  have ih: "for_each (map idx [0..<n]) body new = Some ?mid"
    using Suc by simp
  have rd: "go_index src (int (so + n)) = Some (src ! (so + n))"
    using Suc.prems(2) by (simp only: go_index_nat) simp
  have len: "length ?mid = length new" using Suc.prems(2,3) by simp
  have st: "go_store ?mid (int (d + n)) (Some (src ! (so + n))) = Some (?mid[d + n := Some (src ! (so + n))])"
    using Suc.prems(3) len by (simp only: go_store_nat) simp
  have upd: "?mid[d + n := Some (src ! (so + n))]
           = take d new @ map Some (take (Suc n) (drop so src)) @ drop (d + Suc n) new"
  proof -
    let ?A = "take d new @ map Some (take n (drop so src))"
    have lA: "length ?A = d + n" using Suc.prems(2,3) by simp
    have dn: "drop (d + n) new = new ! (d + n) # drop (Suc (d + n)) new"
      using Suc.prems(3) by (simp add: Cons_nth_drop_Suc)
    have tk: "take (Suc n) (drop so src) = take n (drop so src) @ [src ! (so + n)]"
      using Suc.prems(2) by (simp add: take_Suc_conv_app_nth)
    have "(?A @ new ! (d + n) # drop (Suc (d + n)) new)[length ?A := Some (src ! (so + n))]
            = ?A @ Some (src ! (so + n)) # drop (Suc (d + n)) new"
      by (rule list_update_length)
    then show ?thesis
      by (simp only: lA dn [symmetric]) (simp add: tk)
  qed
  show ?case
    using ih rd st upd Suc.prems(1) [of n]
    by (simp add: for_each_append)
qed


lemma SetSlice_newArr_splice:
  assumes A: "0 \<le> A" "A \<le> B" and B: "B \<le> int (length xs)"
  shows "SetSlice_newArr xs ys A B (B - A) = Some (take (nat A) xs @ ys @ drop (nat B) xs)"
proof -
  obtain lo hi where lo: "A = int lo" and hi: "B = int hi"
    using A by (metis nonneg_int_cases order_trans)
  have lohi: "lo \<le> hi" "hi \<le> length xs" using A B lo hi by simp_all
  let ?m = "length ys"
  let ?N = "lo + ?m + (length xs - hi)"
  have N: "int (length xs) + (int ?m - (B - A)) = int ?N"
    using lohi lo hi by simp
  let ?new0 = "replicate ?N (None :: 'a option)"
  let ?new1 = "map Some (take lo xs) @ replicate (?m + (length xs - hi)) None"
  let ?new2 = "map Some (take lo xs) @ map Some ys @ replicate (length xs - hi) None"
  let ?new3 = "map Some (take lo xs @ ys @ drop hi xs)"
  have l1: "for_each (map int [0..<lo])
              (\<lambda>i new. do { x \<leftarrow> go_index xs i; go_store new i (Some x) }) ?new0 = Some ?new1"
    using for_each_copy [of lo "\<lambda>i new. do { x \<leftarrow> go_index xs i; go_store new i (Some x) }"
            int xs 0 0 ?new0] lohi
    by (simp add: add.assoc)
  have l2: "for_each (map int [0..<?m])
              (\<lambda>i new. do { y \<leftarrow> go_index ys i; go_store new (int lo + i) (Some y) }) ?new1
            = Some ?new2"
    using for_each_copy [of ?m
            "\<lambda>i new. do { y \<leftarrow> go_index ys i; go_store new (int lo + i) (Some y) }"
            int ys 0 lo ?new1] lohi
    by simp
  have idx: "[int hi + (int ?m - (int hi - int lo))..int (length ?new2) - 1]
               = map (\<lambda>k. int (lo + ?m) + int k) [0..<length xs - hi]"
  proof -
    have nd: "nat (int (length xs) - int hi) = length xs - hi" by arith
    show ?thesis using lohi by (simp add: upto_as_map nd add.commute)
  qed
  have l3: "for_each (map (\<lambda>k. int (lo + ?m) + int k) [0..<length xs - hi])
              (\<lambda>i new. do { x \<leftarrow> go_index xs (i - (int ?m - (int hi - int lo)));
                            go_store new i (Some x) }) ?new2
            = Some ?new3"
    using for_each_copy [of "length xs - hi"
            "\<lambda>i new. do { x \<leftarrow> go_index xs (i - (int ?m - (int hi - int lo)));
                          go_store new i (Some x) }"
            "\<lambda>k. int (lo + ?m) + int k" xs hi "lo + ?m" ?new2] lohi
    by (simp add: algebra_simps)
  have e0: "(if int (length xs) + (int ?m - (int hi - int lo)) < 0 then None
              else Some (replicate (nat (int (length xs) + (int ?m - (int hi - int lo)))) None))
            = Some ?new0"
    using N by (simp add: lo hi del: of_nat_add)
  show ?thesis
    unfolding lo hi SetSlice_newArr_def
    by (simp only: e0 Option.bind_lunit nat_int l1 l2 idx l3 no_nil_map_Some)
qed


lemma sint_sub_nonneg:
  assumes "0 \<le> sint (x :: int64)" "sint x \<le> sint (y :: int64)"
  shows "sint (y - x) = sint y - sint x"
proof -
  have "sint y < 2 ^ 63" using sint_lt [of y] by simp
  then have r: "- (2 ^ 63) \<le> sint y - sint x" "sint y - sint x < 2 ^ 63" using assms by auto
  have "y - x = word_of_int (sint y - sint x)" by simp
  then show ?thesis using r by (simp only: sint_int64_of_int)
qed

lemma SetSlice_splice:
  assumes v: "cells h v = \<lparr>TypeId = VMTypeArray, Value = ArrayDataPtr p\<rparr>"
      and val: "cells h val = \<lparr>TypeId = VMTypeArray, Value = ArrayDataPtr p2\<rparr>"
      and len: "length (arrays h p) < 2 ^ 63"
  shows "SetSlice ctx h v a b step val =
           Some (True, ctx,
                 h\<lparr>arrays := (arrays h)
                    (p := take (nat (min (spec_bound (int (length (arrays h p))) (sint a))
                                         (spec_bound (int (length (arrays h p))) (sint b))))
                            (arrays h p)
                          @ arrays h p2
                          @ drop (nat (spec_bound (int (length (arrays h p))) (sint b)))
                              (arrays h p))\<rparr>)"
proof -
  let ?xs = "arrays h p" and ?ys = "arrays h p2"
  let ?n = "length ?xs"
  let ?a0 = "getClampRealIndex ctx a (word_of_nat ?n)"
  let ?b' = "getClampRealIndex ctx b (word_of_nat ?n)"
  let ?a' = "if sint ?b' < sint ?a0 then ?b' else ?a0"
  have sl: "sint (word_of_nat ?n :: int64) = int ?n" using len by (rule sint_int64_of_nat)
  have ba: "sint ?a0 = spec_bound (int ?n) (sint a)"
    using getClampRealIndex_sint [of "word_of_nat ?n" ctx a] sl by simp
  have bb: "sint ?b' = spec_bound (int ?n) (sint b)"
    using getClampRealIndex_sint [of "word_of_nat ?n" ctx b] sl by simp
  have ra: "0 \<le> sint ?a0" using spec_bound_range [of "int ?n" "sint a"] ba by simp
  have rb: "0 \<le> sint ?b'" "sint ?b' \<le> int ?n"
    using spec_bound_range [of "int ?n" "sint b"] bb by simp_all
  have A: "0 \<le> sint ?a'" "sint ?a' \<le> sint ?b'" using ra rb by auto
  have D: "sint (?b' - ?a') = sint ?b' - sint ?a'" using A by (rule sint_sub_nonneg)
  have amin: "sint ?a' = min (spec_bound (int ?n) (sint a)) (spec_bound (int ?n) (sint b))"
    using ba bb by auto
  have loops: "SetSlice_newArr ?xs ?ys (sint ?a') (sint ?b') (sint (?b' - ?a'))
                 = Some (take (nat (sint ?a')) ?xs @ ?ys @ drop (nat (sint ?b')) ?xs)"
    using SetSlice_newArr_splice [OF A rb(2), of ?ys] by (simp only: D)
  have "SetSlice ctx h v a b step val =
          Some (True, ctx, h\<lparr>arrays := (arrays h)
                  (p := take (nat (sint ?a')) ?xs @ ?ys @ drop (nat (sint ?b')) ?xs)\<rparr>)"
    unfolding SetSlice_def ReadArray_def Let_def
    using v val by (simp add: loops)
  then show ?thesis by (simp only: amin) (simp only: bb)
qed


lemma clone_each_length: "length (fst (clone_each h ps)) = length ps"
  by (induction ps arbitrary: h) (simp_all add: split_beta Let_def)

lemma OpAdd_array_bound:
  assumes "cells h v = \<lparr>TypeId = VMTypeArray, Value = ArrayDataPtr p\<rparr>"
      and "cells h v2 = \<lparr>TypeId = VMTypeArray, Value = ArrayDataPtr p2\<rparr>"
  shows "OpAdd F ctx h v v2 =
           (if 512 < length (arrays h p) + length (arrays h p2)
            then Some (None, ctx\<lparr>Error := Some ArrayTooLarge\<rparr>, h)
            else returning ctx (VMValueNewArray h (arrays h p @ arrays h p2)))"
  using assms by (simp add: OpAdd_def ReadArray_def)

lemma ArrayRepeatTimesEx_bound:
  assumes "cells h v = \<lparr>TypeId = VMTypeArray, Value = ArrayDataPtr p\<rparr>"
      and "cells h tms = \<lparr>TypeId = VMTypeInt, Value = Int64Value n\<rparr>"
      and "ArrayRepeatTimesEx ctx h v tms = Some (Some r, ctx', h')"
  shows "\<exists>q. cells h' r = \<lparr>TypeId = VMTypeArray, Value = ArrayDataPtr q\<rparr> \<and>
             length (arrays h' q) \<le> 512"
proof -
  let ?len = "(word_of_nat (length (arrays h p)) :: int64) * n"
  let ?src = "map (\<lambda>i. arrays h p ! (i mod length (arrays h p))) [0..<nat (sint ?len)]"
  have le: "\<not> 512 < sint ?len" and ge: "\<not> sint ?len < 0"
    using assms by (auto simp: ArrayRepeatTimesEx_def ReadInt_def ReadArray_def Let_def
                         split: if_splits)
  have res: "Some (Some r, ctx', h')
               = returning ctx (VMValueNewArray (snd (clone_each h ?src)) (fst (clone_each h ?src)))"
    using assms le ge
    by (simp add: ArrayRepeatTimesEx_def ReadInt_def ReadArray_def Let_def split_beta)
  have "length (fst (clone_each h ?src)) \<le> 512"
    using le ge by (simp add: clone_each_length)
  then show ?thesis
    using res by (auto simp: returning_def VMValueNewArray_def new_cell_def Let_def)
qed

lemma full_array_cells:
  "cells full_array 2 = \<lparr>TypeId = VMTypeArray, Value = ArrayDataPtr 1\<rparr>"
  "cells full_array 4 = \<lparr>TypeId = VMTypeArray, Value = ArrayDataPtr 3\<rparr>"
  "arrays full_array (Suc 0) = replicate 512 0"
  "arrays full_array 3 = [0]"
  by (simp_all add: full_array_def VMValueNewInt_def VMValueNewArray_def new_cell_def
        empty_heap_def Let_def)

text \<open>
  Claim C1. Concatenation and repetition keep their results within \<open>512\<close> elements
  (\<open>OpAdd_array_bound\<close>, \<open>ArrayRepeatTimesEx_bound\<close>): both test the new length and fail
  with \<open>ArrayTooLarge\<close>. \<open>SetSlice\<close> has no such test. Assigning a one-element array to the
  empty slice \<open>[0:0]\<close> of an array of \<open>512\<close> elements succeeds with no error and leaves the
  target with \<open>513\<close> elements.
\<close>

theorem SetSlice_exceeds_512:
  "length (arrays full_array 1) = 512 \<and>
   SetSlice zero_Context full_array 2 0 0 1 4
     = Some (True, zero_Context,
             full_array\<lparr>arrays := (arrays full_array)(1 := 0 # replicate 512 0)\<rparr>) \<and>
   length (0 # replicate 512 (0 :: nat)) = 513 \<and>
   Error (zero_Context :: int Context) = None"
  using SetSlice_splice [of full_array 2 1 4 3 zero_Context 0 0 1]
  by (simp add: full_array_cells spec_bound_def zero_Context_def)



section \<open>The array methods kh and kl\<close>

lemma keepHigh_loop_Int:
  assumes "TypeId (cells h i) = VMTypeInt"
  shows "keepHigh_loop F h (i # rest) (m, fl, first) =
           (case assert_int64 (Value (cells h i)) of
              None \<Rightarrow> None
            | Some x \<Rightarrow> keepHigh_loop F h rest
                (if first then f_of_int64 F x
                 else if f_lt F m (f_of_int64 F x) then f_of_int64 F x else m, fl, False))"
  using assms by (cases "assert_int64 (Value (cells h i))"; cases first) simp_all

lemma keepHigh_loop_Float:
  assumes "TypeId (cells h i) = VMTypeFloat"
  shows "keepHigh_loop F h (i # rest) (m, fl, first) =
           (case assert_float64 (Value (cells h i)) of
              None \<Rightarrow> None
            | Some x \<Rightarrow> keepHigh_loop F h rest
                (if first then x else if f_lt F m x then x else m, True, False))"
  using assms by (cases "assert_float64 (Value (cells h i))"; cases first) simp_all

lemma keepHigh_loop_other:
  assumes "TypeId (cells h i) \<noteq> VMTypeInt" "TypeId (cells h i) \<noteq> VMTypeFloat"
  shows "keepHigh_loop F h (i # rest) (m, fl, first) = keepHigh_loop F h rest (m, fl, first)"
  using assms by (cases "TypeId (cells h i)") simp_all


lemma has_Float_Cons:
  "has_Float h (i # rest) \<longleftrightarrow> TypeId (cells h i) = VMTypeFloat \<or> has_Float h rest"
  by (simp add: has_Float_def)

lemma keepHigh_loop_result:
  assumes "keepHigh_loop F h ps (m, fl, first) = Some (m', fl', first')"
  shows "fl' = (fl \<or> has_Float h ps) \<and>
         first' = (first \<and> widened F h ps = []) \<and>
         m' = (if first then (case widened F h ps of [] \<Rightarrow> m
                               | x # xs \<Rightarrow> foldl (\<lambda>c x. if f_lt F c x then x else c) x xs)
               else foldl (\<lambda>c x. if f_lt F c x then x else c) m (widened F h ps))"
  using assms
proof (induction ps arbitrary: m fl first)
  case Nil
  then show ?case by (simp add: has_Float_def)
next
  case (Cons i rest)
  show ?case
  proof (cases "TypeId (cells h i) = VMTypeInt")
    case True
    from Cons.prems obtain x where x: "assert_int64 (Value (cells h i)) = Some x"
      and run: "keepHigh_loop F h rest
                  (if first then f_of_int64 F x
                   else if f_lt F m (f_of_int64 F x) then f_of_int64 F x else m, fl, False)
                = Some (m', fl', first')"
      by (simp only: keepHigh_loop_Int [OF True] split: option.splits) simp
    have w: "widened F h (i # rest) = f_of_int64 F x # widened F h rest"
      using True x by (simp add: widen_def)
    have hf: "has_Float h (i # rest) = has_Float h rest"
      using True by (simp add: has_Float_Cons)
    from Cons.IH [OF run] show ?thesis
      by (simp only: w hf) (cases first; simp)
  next
    case notInt: False
    show ?thesis
    proof (cases "TypeId (cells h i) = VMTypeFloat")
      case True
      from Cons.prems obtain x where x: "assert_float64 (Value (cells h i)) = Some x"
        and run: "keepHigh_loop F h rest
                    (if first then x else if f_lt F m x then x else m, True, False)
                  = Some (m', fl', first')"
        by (simp only: keepHigh_loop_Float [OF True] split: option.splits) simp
      have w: "widened F h (i # rest) = x # widened F h rest"
        using True x by (simp add: widen_def)
      have hf: "has_Float h (i # rest)"
        using True by (simp add: has_Float_Cons)
      from Cons.IH [OF run] show ?thesis
        by (simp only: w hf) (cases first; simp)
    next
      case False
      have w: "widened F h (i # rest) = widened F h rest"
        using notInt False by (simp add: widen_def split: VMValueType.splits)
      have hf: "has_Float h (i # rest) = has_Float h rest"
        using False by (simp add: has_Float_Cons)
      have run: "keepHigh_loop F h rest (m, fl, first) = Some (m', fl', first')"
        using Cons.prems by (simp only: keepHigh_loop_other [OF notInt False])
      from Cons.IH [OF run] show ?thesis
        by (simp only: w hf)
    qed
  qed
qed

lemma keepLow_loop_Int:
  assumes "TypeId (cells h i) = VMTypeInt"
  shows "keepLow_loop F h (i # rest) (m, fl, first) =
           (case assert_int64 (Value (cells h i)) of
              None \<Rightarrow> None
            | Some x \<Rightarrow> keepLow_loop F h rest
                (if first then f_of_int64 F x
                 else if f_lt F (f_of_int64 F x) m then f_of_int64 F x else m, fl, False))"
  using assms by (cases "assert_int64 (Value (cells h i))"; cases first) simp_all

lemma keepLow_loop_Float:
  assumes "TypeId (cells h i) = VMTypeFloat"
  shows "keepLow_loop F h (i # rest) (m, fl, first) =
           (case assert_float64 (Value (cells h i)) of
              None \<Rightarrow> None
            | Some x \<Rightarrow> keepLow_loop F h rest
                (if first then x else if f_lt F x m then x else m, True, False))"
  using assms by (cases "assert_float64 (Value (cells h i))"; cases first) simp_all

lemma keepLow_loop_other:
  assumes "TypeId (cells h i) \<noteq> VMTypeInt" "TypeId (cells h i) \<noteq> VMTypeFloat"
  shows "keepLow_loop F h (i # rest) (m, fl, first) = keepLow_loop F h rest (m, fl, first)"
  using assms by (cases "TypeId (cells h i)") simp_all


lemma keepLow_loop_result:
  assumes "keepLow_loop F h ps (m, fl, first) = Some (m', fl', first')"
  shows "fl' = (fl \<or> has_Float h ps) \<and>
         first' = (first \<and> widened F h ps = []) \<and>
         m' = (if first then (case widened F h ps of [] \<Rightarrow> m
                               | x # xs \<Rightarrow> foldl (\<lambda>c x. if f_lt F x c then x else c) x xs)
               else foldl (\<lambda>c x. if f_lt F x c then x else c) m (widened F h ps))"
  using assms
proof (induction ps arbitrary: m fl first)
  case Nil
  then show ?case by (simp add: has_Float_def)
next
  case (Cons i rest)
  show ?case
  proof (cases "TypeId (cells h i) = VMTypeInt")
    case True
    from Cons.prems obtain x where x: "assert_int64 (Value (cells h i)) = Some x"
      and run: "keepLow_loop F h rest
                  (if first then f_of_int64 F x
                   else if f_lt F (f_of_int64 F x) m then f_of_int64 F x else m, fl, False)
                = Some (m', fl', first')"
      by (simp only: keepLow_loop_Int [OF True] split: option.splits) simp
    have w: "widened F h (i # rest) = f_of_int64 F x # widened F h rest"
      using True x by (simp add: widen_def)
    have hf: "has_Float h (i # rest) = has_Float h rest"
      using True by (simp add: has_Float_Cons)
    from Cons.IH [OF run] show ?thesis
      by (simp only: w hf) (cases first; simp)
  next
    case notInt: False
    show ?thesis
    proof (cases "TypeId (cells h i) = VMTypeFloat")
      case True
      from Cons.prems obtain x where x: "assert_float64 (Value (cells h i)) = Some x"
        and run: "keepLow_loop F h rest
                    (if first then x else if f_lt F x m then x else m, True, False)
                  = Some (m', fl', first')"
        by (simp only: keepLow_loop_Float [OF True] split: option.splits) simp
      have w: "widened F h (i # rest) = x # widened F h rest"
        using True x by (simp add: widen_def)
      have hf: "has_Float h (i # rest)"
        using True by (simp add: has_Float_Cons)
      from Cons.IH [OF run] show ?thesis
        by (simp only: w hf) (cases first; simp)
    next
      case False
      have w: "widened F h (i # rest) = widened F h rest"
        using notInt False by (simp add: widen_def split: VMValueType.splits)
      have hf: "has_Float h (i # rest) = has_Float h rest"
        using False by (simp add: has_Float_Cons)
      have run: "keepLow_loop F h rest (m, fl, first) = Some (m', fl', first')"
        using Cons.prems by (simp only: keepLow_loop_other [OF notInt False])
      from Cons.IH [OF run] show ?thesis
        by (simp only: w hf)
    qed
  qed
qed


lemma foldl_maximal:
  assumes irrefl: "\<forall>x\<in>S. \<not> lt x x"
      and trans: "\<forall>x\<in>S. \<forall>y\<in>S. \<forall>z\<in>S. lt x y \<longrightarrow> lt y z \<longrightarrow> lt x z"
      and sub: "set (m # W) \<subseteq> S"
  shows "foldl (\<lambda>c x. if lt c x then x else c) m W \<in> set (m # W) \<and>
         (\<forall>e\<in>set (m # W). \<not> lt (foldl (\<lambda>c x. if lt c x then x else c) m W) e)"
  using sub
proof (induction W arbitrary: m rule: rev_induct)
  case Nil
  then show ?case using irrefl by auto
next
  case (snoc x W)
  let ?r = "foldl (\<lambda>c x. if lt c x then x else c) m W"
  have ih: "?r \<in> set (m # W)" "\<forall>e\<in>set (m # W). \<not> lt ?r e"
    using snoc by auto
  have inS: "?r \<in> S" "x \<in> S" "set (m # W) \<subseteq> S" using ih(1) snoc.prems by auto
  show ?case
  proof (cases "lt ?r x")
    case True
    have "\<not> lt x e" if "e \<in> set (m # W)" for e
    proof
      assume "lt x e"
      then have "lt ?r e" using True trans inS that by blast
      then show False using ih(2) that by blast
    qed
    moreover have "\<not> lt x x" using irrefl inS by blast
    ultimately show ?thesis using True by auto
  next
    case False
    then show ?thesis using ih by auto
  qed
qed

lemma foldl_minimal:
  assumes irrefl: "\<forall>x\<in>S. \<not> lt x x"
      and trans: "\<forall>x\<in>S. \<forall>y\<in>S. \<forall>z\<in>S. lt x y \<longrightarrow> lt y z \<longrightarrow> lt x z"
      and sub: "set (m # W) \<subseteq> S"
  shows "foldl (\<lambda>c x. if lt x c then x else c) m W \<in> set (m # W) \<and>
         (\<forall>e\<in>set (m # W). \<not> lt e (foldl (\<lambda>c x. if lt x c then x else c) m W))"
proof -
  have t: "\<forall>x\<in>S. \<forall>y\<in>S. \<forall>z\<in>S. lt y x \<longrightarrow> lt z y \<longrightarrow> lt z x"
    using trans by blast
  show ?thesis
    using foldl_maximal [of S "\<lambda>a b. lt b a" m W, OF irrefl t sub] by simp
qed

lemma widened_no_Float:
  assumes "\<not> has_Float h ps"
  shows "widened F h ps = map (f_of_int64 F) (int_elements h ps)"
  using assms
proof (induction ps)
  case Nil
  then show ?case by simp
next
  case (Cons i rest)
  then have nf: "TypeId (cells h i) \<noteq> VMTypeFloat" and rest: "\<not> has_Float h rest"
    by (simp_all add: has_Float_Cons)
  show ?case
  proof (cases "TypeId (cells h i) = VMTypeInt")
    case True
    then show ?thesis using Cons.IH [OF rest]
      by (cases "assert_int64 (Value (cells h i))") (simp_all add: widen_def)
  next
    case False
    then have "widen F (cells h i) = None"
      using nf by (simp add: widen_def split: VMValueType.splits)
    then show ?thesis using False Cons.IH [OF rest] by simp
  qed
qed


lemma keepHigh_loop_total:
  assumes "\<forall>i\<in>set ps. numeric_ok (cells h i)"
  shows "\<exists>st'. keepHigh_loop F h ps (m, fl, first) = Some st'"
  using assms
proof (induction ps arbitrary: m fl first)
  case Nil
  then show ?case by simp
next
  case (Cons i rest)
  then have ok: "numeric_ok (cells h i)" and rest: "\<forall>i\<in>set rest. numeric_ok (cells h i)"
    by simp_all
  show ?case
  proof (cases "TypeId (cells h i) = VMTypeInt")
    case True
    then obtain x where "assert_int64 (Value (cells h i)) = Some x"
      using ok by (auto simp: numeric_ok_def)
    then show ?thesis using Cons.IH [OF rest] by (simp only: keepHigh_loop_Int [OF True]) simp
  next
    case notInt: False
    show ?thesis
    proof (cases "TypeId (cells h i) = VMTypeFloat")
      case True
      then obtain x where "assert_float64 (Value (cells h i)) = Some x"
        using ok by (auto simp: numeric_ok_def)
      then show ?thesis using Cons.IH [OF rest] by (simp only: keepHigh_loop_Float [OF True]) simp
    next
      case False
      show ?thesis using Cons.IH [OF rest] by (simp only: keepHigh_loop_other [OF notInt False])
    qed
  qed
qed

lemma ArrayFuncKeepHigh_result:
  assumes v: "cells h v = \<lparr>TypeId = VMTypeArray, Value = ArrayDataPtr p\<rparr>"
      and ret: "ArrayFuncKeepHigh F ctx h v = Some (Some r, ctx', h')"
  shows "cells h' r =
           (if has_Float h (arrays h p)
            then \<lparr>TypeId = VMTypeFloat,
                  Value = Float64Value
                    (case widened F h (arrays h p) of [] \<Rightarrow> f_of_int64 F 0
                     | x # xs \<Rightarrow> foldl (\<lambda>c x. if f_lt F c x then x else c) x xs)\<rparr>
            else \<lparr>TypeId = VMTypeInt,
                  Value = Int64Value (f_to_int64 F
                    (case widened F h (arrays h p) of [] \<Rightarrow> f_of_int64 F 0
                     | x # xs \<Rightarrow> foldl (\<lambda>c x. if f_lt F c x then x else c) x xs))\<rparr>)"
proof -
  obtain m' fl' first' where
    loop: "keepHigh_loop F h (arrays h p) (f_of_int64 F 0, False, True) = Some (m', fl', first')"
    using v ret
    by (cases "keepHigh_loop F h (arrays h p) (f_of_int64 F 0, False, True)")
       (auto simp: ArrayFuncKeepHigh_def ReadArray_def)
  have res: "Some (Some r, ctx', h') =
               (if fl' then returning ctx (VMValueNewFloat h m')
                else returning ctx (VMValueNewInt h (f_to_int64 F m')))"
    using v ret loop by (simp add: ArrayFuncKeepHigh_def ReadArray_def)
  from keepHigh_loop_result [OF loop]
  have fl: "fl' = has_Float h (arrays h p)"
    and m: "m' = (case widened F h (arrays h p) of [] \<Rightarrow> f_of_int64 F 0
                  | x # xs \<Rightarrow> foldl (\<lambda>c x. if f_lt F c x then x else c) x xs)"
    by simp_all
  show ?thesis
    using res unfolding fl m [symmetric]
    by (auto simp: returning_def VMValueNewFloat_def VMValueNewInt_def new_cell_def
             split: if_splits)
qed

lemma keepLow_loop_total:
  assumes "\<forall>i\<in>set ps. numeric_ok (cells h i)"
  shows "\<exists>st'. keepLow_loop F h ps (m, fl, first) = Some st'"
  using assms
proof (induction ps arbitrary: m fl first)
  case Nil
  then show ?case by simp
next
  case (Cons i rest)
  then have ok: "numeric_ok (cells h i)" and rest: "\<forall>i\<in>set rest. numeric_ok (cells h i)"
    by simp_all
  show ?case
  proof (cases "TypeId (cells h i) = VMTypeInt")
    case True
    then obtain x where "assert_int64 (Value (cells h i)) = Some x"
      using ok by (auto simp: numeric_ok_def)
    then show ?thesis using Cons.IH [OF rest] by (simp only: keepLow_loop_Int [OF True]) simp
  next
    case notInt: False
    show ?thesis
    proof (cases "TypeId (cells h i) = VMTypeFloat")
      case True
      then obtain x where "assert_float64 (Value (cells h i)) = Some x"
        using ok by (auto simp: numeric_ok_def)
      then show ?thesis using Cons.IH [OF rest] by (simp only: keepLow_loop_Float [OF True]) simp
    next
      case False
      show ?thesis using Cons.IH [OF rest] by (simp only: keepLow_loop_other [OF notInt False])
    qed
  qed
qed

lemma ArrayFuncKeepLow_result:
  assumes v: "cells h v = \<lparr>TypeId = VMTypeArray, Value = ArrayDataPtr p\<rparr>"
      and ret: "ArrayFuncKeepLow F ctx h v = Some (Some r, ctx', h')"
  shows "cells h' r =
           (if has_Float h (arrays h p)
            then \<lparr>TypeId = VMTypeFloat,
                  Value = Float64Value
                    (case widened F h (arrays h p) of [] \<Rightarrow> f_of_int64 F 0
                     | x # xs \<Rightarrow> foldl (\<lambda>c x. if f_lt F x c then x else c) x xs)\<rparr>
            else \<lparr>TypeId = VMTypeInt,
                  Value = Int64Value (f_to_int64 F
                    (case widened F h (arrays h p) of [] \<Rightarrow> f_of_int64 F 0
                     | x # xs \<Rightarrow> foldl (\<lambda>c x. if f_lt F x c then x else c) x xs))\<rparr>)"
proof -
  obtain m' fl' first' where
    loop: "keepLow_loop F h (arrays h p) (f_of_int64 F 0, False, True) = Some (m', fl', first')"
    using v ret
    by (cases "keepLow_loop F h (arrays h p) (f_of_int64 F 0, False, True)")
       (auto simp: ArrayFuncKeepLow_def ReadArray_def)
  have res: "Some (Some r, ctx', h') =
               (if fl' then returning ctx (VMValueNewFloat h m')
                else returning ctx (VMValueNewInt h (f_to_int64 F m')))"
    using v ret loop by (simp add: ArrayFuncKeepLow_def ReadArray_def)
  from keepLow_loop_result [OF loop]
  have fl: "fl' = has_Float h (arrays h p)"
    and m: "m' = (case widened F h (arrays h p) of [] \<Rightarrow> f_of_int64 F 0
                  | x # xs \<Rightarrow> foldl (\<lambda>c x. if f_lt F x c then x else c) x xs)"
    by simp_all
  show ?thesis
    using res unfolding fl m [symmetric]
    by (auto simp: returning_def VMValueNewFloat_def VMValueNewInt_def new_cell_def
             split: if_splits)
qed


lemma no_numeric_elements:
  assumes "\<forall>i\<in>set ps. TypeId (cells h i) \<noteq> VMTypeInt \<and> TypeId (cells h i) \<noteq> VMTypeFloat"
  shows "widened F h ps = [] \<and> \<not> has_Float h ps"
  using assms
proof (induction ps)
  case Nil
  then show ?case by (simp add: has_Float_def)
next
  case (Cons i rest)
  then have t: "TypeId (cells h i) \<noteq> VMTypeInt" "TypeId (cells h i) \<noteq> VMTypeFloat"
    and ih: "widened F h rest = [] \<and> \<not> has_Float h rest"
    by simp_all
  have "widen F (cells h i) = None"
    using t by (simp add: widen_def split: VMValueType.splits)
  then show ?case using t ih by (simp add: has_Float_Cons)
qed

lemma exact_on_orders:
  assumes "exact_on F xs"
  shows "lt_orders F (map (f_of_int64 F) xs)"
proof -
  have lt: "f_lt F (f_of_int64 F a) (f_of_int64 F b) \<longleftrightarrow> sint a < sint b"
    if "a \<in> set xs" "b \<in> set xs" for a b
    using assms that by (simp add: exact_on_def)
  have irrefl: "\<not> f_lt F x x" if "x \<in> set (map (f_of_int64 F) xs)" for x
  proof -
    from that obtain a where "a \<in> set xs" "x = f_of_int64 F a" by auto
    then show ?thesis using lt [of a a] by simp
  qed
  have trans: "f_lt F x z"
    if "x \<in> set (map (f_of_int64 F) xs)" "y \<in> set (map (f_of_int64 F) xs)"
       "z \<in> set (map (f_of_int64 F) xs)" "f_lt F x y" "f_lt F y z" for x y z
  proof -
    from that obtain a b c where abc: "a \<in> set xs" "b \<in> set xs" "c \<in> set xs"
      and e: "x = f_of_int64 F a" "y = f_of_int64 F b" "z = f_of_int64 F c" by auto
    have "sint a < sint b" "sint b < sint c"
      using that(4,5) lt [of a b] lt [of b c] abc e by simp_all
    then have "sint a < sint c" by simp
    then show ?thesis using lt [of a c] abc e by simp
  qed
  show ?thesis
    unfolding lt_orders_def using irrefl trans by blast
qed



lemma scan_maximal:
  assumes "W \<noteq> []" and "lt_orders F W"
  shows "(case W of [] \<Rightarrow> z | x # xs \<Rightarrow> foldl (\<lambda>c x. if f_lt F c x then x else c) x xs) \<in> set W \<and>
         (\<forall>e\<in>set W. \<not> f_lt F
            (case W of [] \<Rightarrow> z | x # xs \<Rightarrow> foldl (\<lambda>c x. if f_lt F c x then x else c) x xs) e)"
proof -
  obtain a as where W: "W = a # as" using assms(1) by (cases W) simp_all
  have i: "\<forall>x\<in>set (a # as). \<not> f_lt F x x"
    and t: "\<forall>x\<in>set (a # as). \<forall>y\<in>set (a # as). \<forall>z\<in>set (a # as).
              f_lt F x y \<longrightarrow> f_lt F y z \<longrightarrow> f_lt F x z"
    using assms(2) unfolding lt_orders_def W by blast+
  have s: "set (a # as) \<subseteq> set (a # as)" by (rule subset_refl)
  show ?thesis
    unfolding W list.case by (rule foldl_maximal [OF i t s])
qed

lemma scan_minimal:
  assumes "W \<noteq> []" and "lt_orders F W"
  shows "(case W of [] \<Rightarrow> z | x # xs \<Rightarrow> foldl (\<lambda>c x. if f_lt F x c then x else c) x xs) \<in> set W \<and>
         (\<forall>e\<in>set W. \<not> f_lt F e
            (case W of [] \<Rightarrow> z | x # xs \<Rightarrow> foldl (\<lambda>c x. if f_lt F x c then x else c) x xs))"
proof -
  obtain a as where W: "W = a # as" using assms(1) by (cases W) simp_all
  have i: "\<forall>x\<in>set (a # as). \<not> f_lt F x x"
    and t: "\<forall>x\<in>set (a # as). \<forall>y\<in>set (a # as). \<forall>z\<in>set (a # as).
              f_lt F x y \<longrightarrow> f_lt F y z \<longrightarrow> f_lt F x z"
    using assms(2) unfolding lt_orders_def W by blast+
  have s: "set (a # as) \<subseteq> set (a # as)" by (rule subset_refl)
  show ?thesis
    unfolding W list.case by (rule foldl_minimal [OF i t s])
qed

lemma keep_high_properties:
  assumes v: "cells h v = \<lparr>TypeId = VMTypeArray, Value = ArrayDataPtr p\<rparr>"
      and ret: "ArrayFuncKeepHigh F ctx h v = Some (Some r, ctx', h')"
  shows "TypeId (cells h' r) = (if has_Float h (arrays h p) then VMTypeFloat else VMTypeInt)"
    and "(\<forall>i\<in>set (arrays h p). TypeId (cells h i) \<noteq> VMTypeInt \<and> TypeId (cells h i) \<noteq> VMTypeFloat)
          \<longrightarrow> cells h' r = \<lparr>TypeId = VMTypeInt, Value = Int64Value (f_to_int64 F (f_of_int64 F 0))\<rparr>"
    and "widened F h (arrays h p) \<noteq> [] \<longrightarrow> lt_orders F (widened F h (arrays h p)) \<longrightarrow>
           (\<exists>m\<in>set (widened F h (arrays h p)).
              (\<forall>e\<in>set (widened F h (arrays h p)). \<not> f_lt F m e) \<and>
              Value (cells h' r) = (if has_Float h (arrays h p) then Float64Value m
                                    else Int64Value (f_to_int64 F m)))"
    and "\<not> has_Float h (arrays h p) \<longrightarrow> int_elements h (arrays h p) \<noteq> [] \<longrightarrow>
         exact_on F (int_elements h (arrays h p)) \<longrightarrow>
           (\<exists>x\<in>set (int_elements h (arrays h p)).
              cells h' r = \<lparr>TypeId = VMTypeInt, Value = Int64Value x\<rparr> \<and>
              (\<forall>y\<in>set (int_elements h (arrays h p)). sint y \<le> sint x))"
proof -
  let ?ps = "arrays h p"
  let ?W = "widened F h ?ps"
  let ?M = "case ?W of [] \<Rightarrow> f_of_int64 F 0
            | x # xs \<Rightarrow> foldl (\<lambda>c x. if f_lt F c x then x else c) x xs"
  have res: "cells h' r =
           (if has_Float h ?ps then \<lparr>TypeId = VMTypeFloat, Value = Float64Value ?M\<rparr>
            else \<lparr>TypeId = VMTypeInt, Value = Int64Value (f_to_int64 F ?M)\<rparr>)"
    using ArrayFuncKeepHigh_result [OF v ret] .
  show "TypeId (cells h' r) = (if has_Float h ?ps then VMTypeFloat else VMTypeInt)"
    by (simp add: res)
  show "(\<forall>i\<in>set ?ps. TypeId (cells h i) \<noteq> VMTypeInt \<and> TypeId (cells h i) \<noteq> VMTypeFloat)
          \<longrightarrow> cells h' r = \<lparr>TypeId = VMTypeInt, Value = Int64Value (f_to_int64 F (f_of_int64 F 0))\<rparr>"
  proof
    assume "\<forall>i\<in>set ?ps. TypeId (cells h i) \<noteq> VMTypeInt \<and> TypeId (cells h i) \<noteq> VMTypeFloat"
    from no_numeric_elements [OF this, of F] show
      "cells h' r = \<lparr>TypeId = VMTypeInt, Value = Int64Value (f_to_int64 F (f_of_int64 F 0))\<rparr>"
      by (simp add: res)
  qed
  show "?W \<noteq> [] \<longrightarrow> lt_orders F ?W \<longrightarrow>
           (\<exists>m\<in>set ?W. (\<forall>e\<in>set ?W. \<not> f_lt F m e) \<and>
              Value (cells h' r) = (if has_Float h ?ps then Float64Value m
                                    else Int64Value (f_to_int64 F m)))"
  proof (intro impI)
    assume "?W \<noteq> []" and "lt_orders F ?W"
    note sm = scan_maximal [OF this, of "f_of_int64 F 0"]
    have "?M \<in> set ?W" and "\<forall>e\<in>set ?W. \<not> f_lt F ?M e"
      using sm [THEN conjunct1] sm [THEN conjunct2] .
    then show "\<exists>m\<in>set ?W. (\<forall>e\<in>set ?W. \<not> f_lt F m e) \<and>
              Value (cells h' r) = (if has_Float h ?ps then Float64Value m
                                    else Int64Value (f_to_int64 F m))"
      by (intro bexI [of _ ?M]) (simp_all add: res)
  qed
  show "\<not> has_Float h ?ps \<longrightarrow> int_elements h ?ps \<noteq> [] \<longrightarrow> exact_on F (int_elements h ?ps) \<longrightarrow>
           (\<exists>x\<in>set (int_elements h ?ps).
              cells h' r = \<lparr>TypeId = VMTypeInt, Value = Int64Value x\<rparr> \<and>
              (\<forall>y\<in>set (int_elements h ?ps). sint y \<le> sint x))"
  proof (intro impI)
    let ?xs = "int_elements h ?ps"
    assume nf: "\<not> has_Float h ?ps" and ne: "?xs \<noteq> []" and ex: "exact_on F ?xs"
    have W: "?W = map (f_of_int64 F) ?xs" using nf by (rule widened_no_Float)
    have "?W \<noteq> []" using ne W by simp
    moreover have "lt_orders F ?W" using exact_on_orders [OF ex] W by simp
    ultimately have sm: "?M \<in> set ?W \<and> (\<forall>e\<in>set ?W. \<not> f_lt F ?M e)"
      by (rule scan_maximal)
    have "?M \<in> set ?W" and mx: "\<forall>e\<in>set ?W. \<not> f_lt F ?M e"
      using sm [THEN conjunct1] sm [THEN conjunct2] .
    then obtain x where x: "x \<in> set ?xs" and M: "?M = f_of_int64 F x"
      using W by auto
    have "f_to_int64 F ?M = x" using ex x M by (simp add: exact_on_def)
    then have c: "cells h' r = \<lparr>TypeId = VMTypeInt, Value = Int64Value x\<rparr>"
      using nf by (simp add: res)
    have "sint y \<le> sint x" if "y \<in> set ?xs" for y
    proof -
      have "\<not> f_lt F (f_of_int64 F x) (f_of_int64 F y)"
        using mx that W M by simp
      then show ?thesis using ex x that by (simp add: exact_on_def)
    qed
    with x c show "\<exists>x\<in>set ?xs. cells h' r = \<lparr>TypeId = VMTypeInt, Value = Int64Value x\<rparr> \<and>
              (\<forall>y\<in>set ?xs. sint y \<le> sint x)"
      by blast
  qed
qed


lemma keep_low_properties:
  assumes v: "cells h v = \<lparr>TypeId = VMTypeArray, Value = ArrayDataPtr p\<rparr>"
      and ret: "ArrayFuncKeepLow F ctx h v = Some (Some r, ctx', h')"
  shows "TypeId (cells h' r) = (if has_Float h (arrays h p) then VMTypeFloat else VMTypeInt)"
    and "(\<forall>i\<in>set (arrays h p). TypeId (cells h i) \<noteq> VMTypeInt \<and> TypeId (cells h i) \<noteq> VMTypeFloat)
          \<longrightarrow> cells h' r = \<lparr>TypeId = VMTypeInt, Value = Int64Value (f_to_int64 F (f_of_int64 F 0))\<rparr>"
    and "widened F h (arrays h p) \<noteq> [] \<longrightarrow> lt_orders F (widened F h (arrays h p)) \<longrightarrow>
           (\<exists>m\<in>set (widened F h (arrays h p)).
              (\<forall>e\<in>set (widened F h (arrays h p)). \<not> f_lt F e m) \<and>
              Value (cells h' r) = (if has_Float h (arrays h p) then Float64Value m
                                    else Int64Value (f_to_int64 F m)))"
    and "\<not> has_Float h (arrays h p) \<longrightarrow> int_elements h (arrays h p) \<noteq> [] \<longrightarrow>
         exact_on F (int_elements h (arrays h p)) \<longrightarrow>
           (\<exists>x\<in>set (int_elements h (arrays h p)).
              cells h' r = \<lparr>TypeId = VMTypeInt, Value = Int64Value x\<rparr> \<and>
              (\<forall>y\<in>set (int_elements h (arrays h p)). sint x \<le> sint y))"
proof -
  let ?ps = "arrays h p"
  let ?W = "widened F h ?ps"
  let ?M = "case ?W of [] \<Rightarrow> f_of_int64 F 0
            | x # xs \<Rightarrow> foldl (\<lambda>c x. if f_lt F x c then x else c) x xs"
  have res: "cells h' r =
           (if has_Float h ?ps then \<lparr>TypeId = VMTypeFloat, Value = Float64Value ?M\<rparr>
            else \<lparr>TypeId = VMTypeInt, Value = Int64Value (f_to_int64 F ?M)\<rparr>)"
    using ArrayFuncKeepLow_result [OF v ret] .
  show "TypeId (cells h' r) = (if has_Float h ?ps then VMTypeFloat else VMTypeInt)"
    by (simp add: res)
  show "(\<forall>i\<in>set ?ps. TypeId (cells h i) \<noteq> VMTypeInt \<and> TypeId (cells h i) \<noteq> VMTypeFloat)
          \<longrightarrow> cells h' r = \<lparr>TypeId = VMTypeInt, Value = Int64Value (f_to_int64 F (f_of_int64 F 0))\<rparr>"
  proof
    assume "\<forall>i\<in>set ?ps. TypeId (cells h i) \<noteq> VMTypeInt \<and> TypeId (cells h i) \<noteq> VMTypeFloat"
    from no_numeric_elements [OF this, of F] show
      "cells h' r = \<lparr>TypeId = VMTypeInt, Value = Int64Value (f_to_int64 F (f_of_int64 F 0))\<rparr>"
      by (simp add: res)
  qed
  show "?W \<noteq> [] \<longrightarrow> lt_orders F ?W \<longrightarrow>
           (\<exists>m\<in>set ?W. (\<forall>e\<in>set ?W. \<not> f_lt F e m) \<and>
              Value (cells h' r) = (if has_Float h ?ps then Float64Value m
                                    else Int64Value (f_to_int64 F m)))"
  proof (intro impI)
    assume "?W \<noteq> []" and "lt_orders F ?W"
    note sm = scan_minimal [OF this, of "f_of_int64 F 0"]
    have "?M \<in> set ?W" and "\<forall>e\<in>set ?W. \<not> f_lt F e ?M"
      using sm [THEN conjunct1] sm [THEN conjunct2] .
    then show "\<exists>m\<in>set ?W. (\<forall>e\<in>set ?W. \<not> f_lt F e m) \<and>
              Value (cells h' r) = (if has_Float h ?ps then Float64Value m
                                    else Int64Value (f_to_int64 F m))"
      by (intro bexI [of _ ?M]) (simp_all add: res)
  qed
  show "\<not> has_Float h ?ps \<longrightarrow> int_elements h ?ps \<noteq> [] \<longrightarrow> exact_on F (int_elements h ?ps) \<longrightarrow>
           (\<exists>x\<in>set (int_elements h ?ps).
              cells h' r = \<lparr>TypeId = VMTypeInt, Value = Int64Value x\<rparr> \<and>
              (\<forall>y\<in>set (int_elements h ?ps). sint x \<le> sint y))"
  proof (intro impI)
    let ?xs = "int_elements h ?ps"
    assume nf: "\<not> has_Float h ?ps" and ne: "?xs \<noteq> []" and ex: "exact_on F ?xs"
    have W: "?W = map (f_of_int64 F) ?xs" using nf by (rule widened_no_Float)
    have "?W \<noteq> []" using ne W by simp
    moreover have "lt_orders F ?W" using exact_on_orders [OF ex] W by simp
    ultimately have sm: "?M \<in> set ?W \<and> (\<forall>e\<in>set ?W. \<not> f_lt F e ?M)"
      by (rule scan_minimal)
    have "?M \<in> set ?W" and mx: "\<forall>e\<in>set ?W. \<not> f_lt F e ?M"
      using sm [THEN conjunct1] sm [THEN conjunct2] .
    then obtain x where x: "x \<in> set ?xs" and M: "?M = f_of_int64 F x"
      using W by auto
    have "f_to_int64 F ?M = x" using ex x M by (simp add: exact_on_def)
    then have c: "cells h' r = \<lparr>TypeId = VMTypeInt, Value = Int64Value x\<rparr>"
      using nf by (simp add: res)
    have "sint x \<le> sint y" if "y \<in> set ?xs" for y
    proof -
      have "\<not> f_lt F (f_of_int64 F y) (f_of_int64 F x)"
        using mx that W M by simp
      then show ?thesis using ex x that by (simp add: exact_on_def)
    qed
    with x c show "\<exists>x\<in>set ?xs. cells h' r = \<lparr>TypeId = VMTypeInt, Value = Int64Value x\<rparr> \<and>
              (\<forall>y\<in>set ?xs. sint x \<le> sint y)"
      by blast
  qed
qed



lemma CallFunc_kh_kl:
  assumes "cells h v = \<lparr>TypeId = VMTypeArray, Value = ArrayDataPtr p\<rparr>"
  shows "CallFunc F ctx h v ''kh'' args = ArrayFuncKeepHigh F ctx h v"
    and "CallFunc F ctx h v ''kl'' args = ArrayFuncKeepLow F ctx h v"
  using assms by (simp_all add: CallFunc_def)

lemma ArrayFuncKeepHigh_total:
  assumes v: "cells h v = \<lparr>TypeId = VMTypeArray, Value = ArrayDataPtr p\<rparr>"
      and ok: "\<forall>i\<in>set (arrays h p). numeric_ok (cells h i)"
  shows "\<exists>r h'. ArrayFuncKeepHigh F ctx h v = Some (Some r, ctx, h')"
proof -
  obtain m' fl' first' where
    "keepHigh_loop F h (arrays h p) (f_of_int64 F 0, False, True) = Some (m', fl', first')"
    using keepHigh_loop_total [OF ok, of F "f_of_int64 F 0" False True] by auto
  then show ?thesis
    using v by (simp add: ArrayFuncKeepHigh_def ReadArray_def returning_def)
qed

lemma ArrayFuncKeepLow_total:
  assumes v: "cells h v = \<lparr>TypeId = VMTypeArray, Value = ArrayDataPtr p\<rparr>"
      and ok: "\<forall>i\<in>set (arrays h p). numeric_ok (cells h i)"
  shows "\<exists>r h'. ArrayFuncKeepLow F ctx h v = Some (Some r, ctx, h')"
proof -
  obtain m' fl' first' where
    "keepLow_loop F h (arrays h p) (f_of_int64 F 0, False, True) = Some (m', fl', first')"
    using keepLow_loop_total [OF ok, of F "f_of_int64 F 0" False True] by auto
  then show ?thesis
    using v by (simp add: ArrayFuncKeepLow_def ReadArray_def returning_def)
qed

lemma empty_array_cells:
  "cells empty_array (Suc 0) = \<lparr>TypeId = VMTypeArray, Value = ArrayDataPtr 0\<rparr>"
  "arrays empty_array 0 = []"
  by (simp_all add: empty_array_def VMValueNewArray_def new_cell_def empty_heap_def Let_def)

text \<open>
  Claim C8, as stated, fails: for the empty array there is no maximum or minimum element,
  and \<open>kh\<close> and \<open>kl\<close> return the Int \<open>0\<close>, the float64 zero value of \<open>maxFloat\<close> cast to
  Int.
\<close>

theorem kh_kl_empty_array:
  "cells empty_array 1 = \<lparr>TypeId = VMTypeArray, Value = ArrayDataPtr 0\<rparr> \<and>
   arrays empty_array 0 = [] \<and>
   result_value (CallFunc int_ops zero_Context empty_array 1 ''kh'' [])
     = Some \<lparr>TypeId = VMTypeInt, Value = Int64Value 0\<rparr> \<and>
   result_value (CallFunc int_ops zero_Context empty_array 1 ''kl'' [])
     = Some \<lparr>TypeId = VMTypeInt, Value = Int64Value 0\<rparr>"
  by (simp add: empty_array_cells CallFunc_def ArrayFuncKeepHigh_def ArrayFuncKeepLow_def
        ReadArray_def result_value_returning_Int int_ops_def)

lemma mixed_arrays_cells:
  "cells mixed_arrays 0 = \<lparr>TypeId = VMTypeInt, Value = Int64Value 3\<rparr>"
  "cells mixed_arrays (Suc 0) = \<lparr>TypeId = VMTypeInt, Value = Int64Value 7\<rparr>"
  "cells mixed_arrays 2 = \<lparr>TypeId = VMTypeFloat, Value = Float64Value 5\<rparr>"
  "cells mixed_arrays 3 = \<lparr>TypeId = VMTypeString, Value = StringValue ''d6''\<rparr>"
  "cells mixed_arrays 5 = \<lparr>TypeId = VMTypeArray, Value = ArrayDataPtr 4\<rparr>"
  "cells mixed_arrays 7 = \<lparr>TypeId = VMTypeArray, Value = ArrayDataPtr 6\<rparr>"
  "arrays mixed_arrays 4 = [0, 1, 3]"
  "arrays mixed_arrays 6 = [0, 2, 1]"
  "next_ptr mixed_arrays = 8"
  by (simp_all add: mixed_arrays_def VMValueNewInt_def VMValueNewFloat_def VMValueNewStr_def
        VMValueNewArray_def new_cell_def empty_heap_def Let_def)


text \<open>
  Claim C8, amended. For an Array whose Int and Float elements carry payloads of their kind,
  \<open>kh\<close> and \<open>kl\<close> return a value. Its kind is Float if and only if at least one element is
  Float, and Int otherwise. Elements of other kinds are passed over; when the array has no
  Int or Float element the result is the Int cast of the float64 zero. Otherwise, Ints being
  widened to Float and the float64 \<open><\<close> being irreflexive and transitive on the widened
  elements, the result holds a widened element that no other exceeds (\<open>kh\<close>) or that exceeds
  no other (\<open>kl\<close>), as a Float, or cast back to Int when no element is Float. When no element
  is Float and the conversion between Int and Float is exact and keeps the order on the Int
  elements, the result is the greatest (\<open>kh\<close>) or the least (\<open>kl\<close>) Int element.
\<close>

theorem keep_high_low:
  "cells h v = \<lparr>TypeId = VMTypeArray, Value = ArrayDataPtr p\<rparr> \<longrightarrow>
     ((\<forall>i\<in>set (arrays h p). numeric_ok (cells h i)) \<longrightarrow>
        (\<exists>r h'. CallFunc F ctx h v ''kh'' args = Some (Some r, ctx, h')) \<and>
        (\<exists>r h'. CallFunc F ctx h v ''kl'' args = Some (Some r, ctx, h'))) \<and>
     (CallFunc F ctx h v ''kh'' args = Some (Some r, ctx', h') \<longrightarrow>
      (TypeId (cells h' r) = (if has_Float h (arrays h p) then VMTypeFloat else VMTypeInt) \<and>
       ((\<forall>i\<in>set (arrays h p). TypeId (cells h i) \<noteq> VMTypeInt \<and> TypeId (cells h i) \<noteq> VMTypeFloat)
          \<longrightarrow> cells h' r = \<lparr>TypeId = VMTypeInt, Value = Int64Value (f_to_int64 F (f_of_int64 F 0))\<rparr>) \<and>
       (widened F h (arrays h p) \<noteq> [] \<longrightarrow> lt_orders F (widened F h (arrays h p)) \<longrightarrow>
          (\<exists>m\<in>set (widened F h (arrays h p)).
             (\<forall>e\<in>set (widened F h (arrays h p)). \<not> f_lt F m e) \<and>
             Value (cells h' r) = (if has_Float h (arrays h p) then Float64Value m
                                   else Int64Value (f_to_int64 F m)))) \<and>
       (\<not> has_Float h (arrays h p) \<longrightarrow> int_elements h (arrays h p) \<noteq> [] \<longrightarrow>
        exact_on F (int_elements h (arrays h p)) \<longrightarrow>
          (\<exists>x\<in>set (int_elements h (arrays h p)).
             cells h' r = \<lparr>TypeId = VMTypeInt, Value = Int64Value x\<rparr> \<and>
             (\<forall>y\<in>set (int_elements h (arrays h p)). sint y \<le> sint x))))) \<and>
     (CallFunc F ctx h v ''kl'' args = Some (Some r, ctx', h') \<longrightarrow>
      (TypeId (cells h' r) = (if has_Float h (arrays h p) then VMTypeFloat else VMTypeInt) \<and>
       ((\<forall>i\<in>set (arrays h p). TypeId (cells h i) \<noteq> VMTypeInt \<and> TypeId (cells h i) \<noteq> VMTypeFloat)
          \<longrightarrow> cells h' r = \<lparr>TypeId = VMTypeInt, Value = Int64Value (f_to_int64 F (f_of_int64 F 0))\<rparr>) \<and>
       (widened F h (arrays h p) \<noteq> [] \<longrightarrow> lt_orders F (widened F h (arrays h p)) \<longrightarrow>
          (\<exists>m\<in>set (widened F h (arrays h p)).
             (\<forall>e\<in>set (widened F h (arrays h p)). \<not> f_lt F e m) \<and>
             Value (cells h' r) = (if has_Float h (arrays h p) then Float64Value m
                                   else Int64Value (f_to_int64 F m)))) \<and>
       (\<not> has_Float h (arrays h p) \<longrightarrow> int_elements h (arrays h p) \<noteq> [] \<longrightarrow>
        exact_on F (int_elements h (arrays h p)) \<longrightarrow>
          (\<exists>x\<in>set (int_elements h (arrays h p)).
             cells h' r = \<lparr>TypeId = VMTypeInt, Value = Int64Value x\<rparr> \<and>
             (\<forall>y\<in>set (int_elements h (arrays h p)). sint x \<le> sint y)))))"
proof (intro impI conjI)
  assume v: "cells h v = \<lparr>TypeId = VMTypeArray, Value = ArrayDataPtr p\<rparr>"
  {
    assume ok: "\<forall>i\<in>set (arrays h p). numeric_ok (cells h i)"
    show "\<exists>r h'. CallFunc F ctx h v ''kh'' args = Some (Some r, ctx, h')"
      using ArrayFuncKeepHigh_total [OF v ok] by (simp only: CallFunc_kh_kl [OF v])
    show "\<exists>r h'. CallFunc F ctx h v ''kl'' args = Some (Some r, ctx, h')"
      using ArrayFuncKeepLow_total [OF v ok] by (simp only: CallFunc_kh_kl [OF v])
  }
  {
    assume "CallFunc F ctx h v ''kh'' args = Some (Some r, ctx', h')"
    then have ret: "ArrayFuncKeepHigh F ctx h v = Some (Some r, ctx', h')"
      by (simp only: CallFunc_kh_kl [OF v])
    note P = keep_high_properties [OF v ret]
    show "TypeId (cells h' r) = (if has_Float h (arrays h p) then VMTypeFloat else VMTypeInt)"
      by (rule P(1))
    {
      assume "\<forall>i\<in>set (arrays h p). TypeId (cells h i) \<noteq> VMTypeInt \<and> TypeId (cells h i) \<noteq> VMTypeFloat"
      then show "cells h' r = \<lparr>TypeId = VMTypeInt, Value = Int64Value (f_to_int64 F (f_of_int64 F 0))\<rparr>"
        using P(2) by (rule rev_mp)
    }
    {
      assume "widened F h (arrays h p) \<noteq> []" "lt_orders F (widened F h (arrays h p))"
      then show "\<exists>m\<in>set (widened F h (arrays h p)).
             (\<forall>e\<in>set (widened F h (arrays h p)). \<not> f_lt F m e) \<and>
             Value (cells h' r) = (if has_Float h (arrays h p) then Float64Value m
                                   else Int64Value (f_to_int64 F m))"
        using P(3) by blast
    }
    {
      assume "\<not> has_Float h (arrays h p)" "int_elements h (arrays h p) \<noteq> []"
        "exact_on F (int_elements h (arrays h p))"
      then show "\<exists>x\<in>set (int_elements h (arrays h p)).
             cells h' r = \<lparr>TypeId = VMTypeInt, Value = Int64Value x\<rparr> \<and>
             (\<forall>y\<in>set (int_elements h (arrays h p)). sint y \<le> sint x)"
        using P(4) by blast
    }
  }
  {
    assume "CallFunc F ctx h v ''kl'' args = Some (Some r, ctx', h')"
    then have ret: "ArrayFuncKeepLow F ctx h v = Some (Some r, ctx', h')"
      by (simp only: CallFunc_kh_kl [OF v])
    note P = keep_low_properties [OF v ret]
    show "TypeId (cells h' r) = (if has_Float h (arrays h p) then VMTypeFloat else VMTypeInt)"
      by (rule P(1))
    {
      assume "\<forall>i\<in>set (arrays h p). TypeId (cells h i) \<noteq> VMTypeInt \<and> TypeId (cells h i) \<noteq> VMTypeFloat"
      then show "cells h' r = \<lparr>TypeId = VMTypeInt, Value = Int64Value (f_to_int64 F (f_of_int64 F 0))\<rparr>"
        using P(2) by (rule rev_mp)
    }
    {
      assume "widened F h (arrays h p) \<noteq> []" "lt_orders F (widened F h (arrays h p))"
      then show "\<exists>m\<in>set (widened F h (arrays h p)).
             (\<forall>e\<in>set (widened F h (arrays h p)). \<not> f_lt F e m) \<and>
             Value (cells h' r) = (if has_Float h (arrays h p) then Float64Value m
                                   else Int64Value (f_to_int64 F m))"
        using P(3) by blast
    }
    {
      assume "\<not> has_Float h (arrays h p)" "int_elements h (arrays h p) \<noteq> []"
        "exact_on F (int_elements h (arrays h p))"
      then show "\<exists>x\<in>set (int_elements h (arrays h p)).
             cells h' r = \<lparr>TypeId = VMTypeInt, Value = Int64Value x\<rparr> \<and>
             (\<forall>y\<in>set (int_elements h (arrays h p)). sint x \<le> sint y)"
        using P(4) by blast
    }
  }
qed


theorem keep_high_low_witness:
  "CallFunc int_ops zero_Context mixed_arrays 5 ''kh'' []
     = Some (Some 8, zero_Context, snd (VMValueNewInt mixed_arrays 7)) \<and>
   cells (snd (VMValueNewInt mixed_arrays 7)) 8 = \<lparr>TypeId = VMTypeInt, Value = Int64Value 7\<rparr> \<and>
   int_elements mixed_arrays (arrays mixed_arrays 4) = [3, 7] \<and>
   exact_on int_ops [3, 7] \<and>
   CallFunc int_ops zero_Context mixed_arrays 7 ''kl'' []
     = Some (Some 8, zero_Context, snd (VMValueNewFloat mixed_arrays 3)) \<and>
   cells (snd (VMValueNewFloat mixed_arrays 3)) 8 = \<lparr>TypeId = VMTypeFloat, Value = Float64Value 3\<rparr> \<and>
   has_Float mixed_arrays (arrays mixed_arrays 6)"
  using keep_high_low [of mixed_arrays 5 4 int_ops zero_Context "[]" 8 zero_Context
          "snd (VMValueNewInt mixed_arrays 7)"]
        keep_high_low [of mixed_arrays 7 6 int_ops zero_Context "[]" 8 zero_Context
          "snd (VMValueNewFloat mixed_arrays 3)"]
  by (simp add: mixed_arrays_cells CallFunc_def ArrayFuncKeepHigh_def ArrayFuncKeepLow_def
        ReadArray_def int_ops_def returning_def VMValueNewInt_def VMValueNewFloat_def
        new_cell_def exact_on_def has_Float_def)

section \<open>Sub-evaluation and the operation count\<close>

lemma ComputedExecute_outcome:
  assumes v: "cells h v = \<lparr>TypeId = VMTypeComputedValue, Value = ComputedDataPtr cd\<rparr>"
      and run: "Computed_run E (Computed_child E ctx v) h cd = Some (vm1, h1)"
  shows "Error vm1 \<noteq> None \<Longrightarrow>
           ComputedExecute E ctx h v = Some (None, ctx\<lparr>Error := Error vm1\<rparr>, h1)"
    and "Error vm1 = None \<Longrightarrow> stack_result vm1 h1 = Some (ret, h2) \<Longrightarrow>
           ComputedExecute E ctx h v = Some (Some ret, ctx\<lparr>NumOpCount := NumOpCount vm1\<rparr>, h2)"
  using v run by (simp_all add: ComputedExecute_def ReadComputed_def)








section \<open>The bytecode cache\<close>

lemma stack_result_store:
  assumes "stack_result vm h = Some (ret, h2)"
  shows "computeds h2 = computeds h" and "next_ptr h2 = Suc (next_ptr h)"
    and "q \<noteq> next_ptr h \<Longrightarrow> cells h2 q = cells h q"
  using assms
  by (auto simp: stack_result_def new_cell_def VMValueNewUndefined_def
           split: if_splits Option.bind_splits)

lemma Computed_run_uncached:
  assumes "cd_code (computeds h cd) = None"
      and "Run E (cd_Expr (computeds h cd)) vm h = Some (vm', h')"
  shows "Computed_run E vm h cd =
           Some (vm', h'\<lparr>computeds := (computeds h')
                   (cd := (computeds h' cd)\<lparr>cd_code := code vm', cd_codeIndex := codeIndex vm'\<rparr>)\<rparr>)"
  using assms by (simp add: Computed_run_def)

lemma Computed_run_cached:
  assumes "cd_code (computeds h cd) \<noteq> None"
  shows "Computed_run E vm h cd =
           Evaluate E (vm\<lparr>code := cd_code (computeds h cd),
                          codeIndex := cd_codeIndex (computeds h cd)\<rparr>) h"
  using assms by (simp add: Computed_run_def del: not_None_eq)

lemma first_execution_caches:
  assumes v: "cells h v = \<lparr>TypeId = VMTypeComputedValue, Value = ComputedDataPtr cd\<rparr>"
      and nil: "cd_code (computeds h cd) = None"
      and run: "Run E (cd_Expr (computeds h cd)) (Computed_child E ctx v) h = Some (vm', h')"
      and ret: "ComputedExecute E ctx h v = Some (res, ctx1, h1)"
  shows "cd_code (computeds h1 cd) = code vm'"
proof -
  let ?hc = "h'\<lparr>computeds := (computeds h')
               (cd := (computeds h' cd)\<lparr>cd_code := code vm', cd_codeIndex := codeIndex vm'\<rparr>)\<rparr>"
  have cr: "Computed_run E (Computed_child E ctx v) h cd = Some (vm', ?hc)"
    using nil run by (rule Computed_run_uncached)
  show ?thesis
  proof (cases "Error vm' = None")
    case False
    then have "ComputedExecute E ctx h v = Some (None, ctx\<lparr>Error := Error vm'\<rparr>, ?hc)"
      using ComputedExecute_outcome(1) [OF v cr] by simp
    then show ?thesis using ret by auto
  next
    case True
    then obtain r2 h2 where sr: "stack_result vm' ?hc = Some (r2, h2)"
      using ret v cr
      by (cases "stack_result vm' ?hc")
         (auto simp: ComputedExecute_def ReadComputed_def)
    have "ComputedExecute E ctx h v = Some (Some r2, ctx\<lparr>NumOpCount := NumOpCount vm'\<rparr>, h2)"
      using ComputedExecute_outcome(2) [OF v cr True sr] .
    then have "h1 = h2" using ret by simp
    then show ?thesis using stack_result_store(1) [OF sr] by simp
  qed
qed

lemma cached_execution_ignores_Run:
  assumes "cached h v cd"
  shows "ComputedExecute (E\<lparr>Run := r\<rparr>) ctx h v = ComputedExecute E ctx h v"
  using assms
  by (simp add: cached_def ComputedExecute_def ReadComputed_def Computed_run_def
        Computed_child_def del: not_None_eq)

lemma cached_execution_keeps:
  assumes c: "cached h v cd" and k: "keeps_cached E v cd"
      and ret: "ComputedExecute E ctx h v = Some (res, ctx1, h1)"
  shows "cached h1 v cd"
proof -
  have v: "cells h v = \<lparr>TypeId = VMTypeComputedValue, Value = ComputedDataPtr cd\<rparr>"
    and code: "cd_code (computeds h cd) \<noteq> None"
    using c by (simp_all add: cached_def)
  obtain vm1 hE where cr: "Computed_run E (Computed_child E ctx v) h cd = Some (vm1, hE)"
    using ret v
    by (cases "Computed_run E (Computed_child E ctx v) h cd")
       (auto simp: ComputedExecute_def ReadComputed_def)
  then have "Evaluate E ((Computed_child E ctx v)\<lparr>code := cd_code (computeds h cd),
                            codeIndex := cd_codeIndex (computeds h cd)\<rparr>) h = Some (vm1, hE)"
    using Computed_run_cached [OF code] by simp
  then have cE: "cached hE v cd"
    using k c unfolding keeps_cached_def by blast
  show ?thesis
  proof (cases "Error vm1 = None")
    case False
    then have "ComputedExecute E ctx h v = Some (None, ctx\<lparr>Error := Error vm1\<rparr>, hE)"
      using ComputedExecute_outcome(1) [OF v cr] by simp
    then show ?thesis using ret cE by auto
  next
    case True
    then obtain r2 h2 where sr: "stack_result vm1 hE = Some (r2, h2)"
      using ret v cr
      by (cases "stack_result vm1 hE") (auto simp: ComputedExecute_def ReadComputed_def)
    have "ComputedExecute E ctx h v = Some (Some r2, ctx\<lparr>NumOpCount := NumOpCount vm1\<rparr>, h2)"
      using ComputedExecute_outcome(2) [OF v cr True sr] .
    then have h1: "h1 = h2" using ret by simp
    have "v \<noteq> next_ptr hE" using cE by (simp add: cached_def)
    then show ?thesis
      using cE stack_result_store [OF sr] unfolding h1 cached_def by simp
  qed
qed

lemma later_executions_ignore_Run:
  assumes "cached h v cd" and "keeps_cached E v cd"
  shows "executions (E\<lparr>Run := r\<rparr>) ctx h v n = executions E ctx h v n"
  using assms(1)
proof (induction n arbitrary: ctx h)
  case 0
  then show ?case by simp
next
  case (Suc n)
  have eq: "ComputedExecute (E\<lparr>Run := r\<rparr>) ctx h v = ComputedExecute E ctx h v"
    using Suc.prems by (rule cached_execution_ignores_Run)
  show ?case
  proof (cases "ComputedExecute E ctx h v")
    case None
    then show ?thesis using eq by simp
  next
    case (Some t)
    obtain res ctx1 h1 where t: "t = (res, ctx1, h1)" by (cases t)
    have "cached h1 v cd"
      using cached_execution_keeps [OF Suc.prems assms(2)] Some t by simp
    then have "executions (E\<lparr>Run := r\<rparr>) ctx1 h1 v n = executions E ctx1 h1 v n"
      by (rule Suc.IH)
    then show ?thesis using eq Some t by simp
  qed
qed


lemma first_execution_cached:
  assumes v: "cells h v = \<lparr>TypeId = VMTypeComputedValue, Value = ComputedDataPtr cd\<rparr>"
      and nil: "cd_code (computeds h cd) = None"
      and run: "Run E (cd_Expr (computeds h cd)) (Computed_child E ctx v) h = Some (vm', h')"
      and ret: "ComputedExecute E ctx h v = Some (res, ctx1, h1)"
      and code: "code vm' \<noteq> None"
      and keep: "cells h' v = cells h v" "v < next_ptr h'"
  shows "cached h1 v cd"
proof -
  let ?hc = "h'\<lparr>computeds := (computeds h')
               (cd := (computeds h' cd)\<lparr>cd_code := code vm', cd_codeIndex := codeIndex vm'\<rparr>)\<rparr>"
  have cr: "Computed_run E (Computed_child E ctx v) h cd = Some (vm', ?hc)"
    using nil run by (rule Computed_run_uncached)
  have cc: "cached ?hc v cd"
    using v code keep by (simp add: cached_def del: not_None_eq)
  show ?thesis
  proof (cases "Error vm' = None")
    case False
    then have "ComputedExecute E ctx h v = Some (None, ctx\<lparr>Error := Error vm'\<rparr>, ?hc)"
      using ComputedExecute_outcome(1) [OF v cr] by simp
    then have "h1 = ?hc" using ret by simp
    then show ?thesis using cc by simp
  next
    case True
    then obtain r2 h2 where sr: "stack_result vm' ?hc = Some (r2, h2)"
      using ret v cr
      by (cases "stack_result vm' ?hc")
         (auto simp: ComputedExecute_def ReadComputed_def)
    have "ComputedExecute E ctx h v = Some (Some r2, ctx\<lparr>NumOpCount := NumOpCount vm'\<rparr>, h2)"
      using ComputedExecute_outcome(2) [OF v cr True sr] .
    then have h1: "h1 = h2" using ret by simp
    have "v \<noteq> next_ptr ?hc" using keep by simp
    then show ?thesis
      using cc stack_result_store [OF sr] unfolding h1 cached_def by simp
  qed
qed

lemma ComputedExecute_hit:
  assumes "cached h v cd"
  shows "ComputedExecute E ctx h v =
           (case Evaluate E
                   ((NewVM E)\<lparr>Flags := Flags ctx, subThreadDepth := subThreadDepth ctx + 1,
                             currentThis := Some v, NumOpCount := NumOpCount ctx + 200,
                             code := cd_code (computeds h cd),
                             codeIndex := cd_codeIndex (computeds h cd)\<rparr>) h of
              None \<Rightarrow> None
            | Some (vm1, h1) \<Rightarrow>
                if Error vm1 \<noteq> None then Some (None, ctx\<lparr>Error := Error vm1\<rparr>, h1)
                else (case stack_result vm1 h1 of
                        None \<Rightarrow> None
                      | Some (ret, h2) \<Rightarrow>
                          Some (Some ret, ctx\<lparr>NumOpCount := NumOpCount vm1\<rparr>, h2)))"
  using assms
  by (simp add: cached_def ComputedExecute_def ReadComputed_def Computed_run_def
        Computed_child_def del: not_None_eq split: option.splits)

lemma ComputedExecute_miss:
  assumes "cells h v = \<lparr>TypeId = VMTypeComputedValue, Value = ComputedDataPtr cd\<rparr>"
      and "cd_code (computeds h cd) = None"
  shows "ComputedExecute E ctx h v =
           (case Run E (cd_Expr (computeds h cd))
                   ((NewVM E)\<lparr>Flags := Flags ctx, subThreadDepth := subThreadDepth ctx + 1,
                             currentThis := Some v, NumOpCount := NumOpCount ctx + 200\<rparr>) h of
              None \<Rightarrow> None
            | Some (vm', h') \<Rightarrow>
                if Error vm' \<noteq> None
                then Some (None, ctx\<lparr>Error := Error vm'\<rparr>,
                           h'\<lparr>computeds := (computeds h')
                               (cd := (computeds h' cd)\<lparr>cd_code := code vm',
                                                        cd_codeIndex := codeIndex vm'\<rparr>)\<rparr>)
                else (case stack_result vm'
                             (h'\<lparr>computeds := (computeds h')
                                 (cd := (computeds h' cd)\<lparr>cd_code := code vm',
                                                          cd_codeIndex := codeIndex vm'\<rparr>)\<rparr>) of
                        None \<Rightarrow> None
                      | Some (ret, h2) \<Rightarrow>
                          Some (Some ret, ctx\<lparr>NumOpCount := NumOpCount vm'\<rparr>, h2)))"
  using assms
  by (simp add: ComputedExecute_def ReadComputed_def Computed_run_def
        Computed_child_def del: not_None_eq split: option.splits)

lemma first_execution_caches_index:
  assumes v: "cells h v = \<lparr>TypeId = VMTypeComputedValue, Value = ComputedDataPtr cd\<rparr>"
      and nil: "cd_code (computeds h cd) = None"
      and run: "Run E (cd_Expr (computeds h cd)) (Computed_child E ctx v) h = Some (vm', h')"
      and ret: "ComputedExecute E ctx h v = Some (res, ctx1, h1)"
  shows "cd_codeIndex (computeds h1 cd) = codeIndex vm'"
    and "cd_Expr (computeds h1 cd) = cd_Expr (computeds h' cd)"
proof -
  let ?hc = "h'\<lparr>computeds := (computeds h')
               (cd := (computeds h' cd)\<lparr>cd_code := code vm', cd_codeIndex := codeIndex vm'\<rparr>)\<rparr>"
  have cr: "Computed_run E (Computed_child E ctx v) h cd = Some (vm', ?hc)"
    using nil run by (rule Computed_run_uncached)
  have "computeds h1 = computeds ?hc"
  proof (cases "Error vm' = None")
    case False
    then have "ComputedExecute E ctx h v = Some (None, ctx\<lparr>Error := Error vm'\<rparr>, ?hc)"
      using ComputedExecute_outcome(1) [OF v cr] by simp
    then show ?thesis using ret by auto
  next
    case True
    then obtain r2 h2 where sr: "stack_result vm' ?hc = Some (r2, h2)"
      using ret v cr
      by (cases "stack_result vm' ?hc")
         (auto simp: ComputedExecute_def ReadComputed_def)
    have "ComputedExecute E ctx h v = Some (Some r2, ctx\<lparr>NumOpCount := NumOpCount vm'\<rparr>, h2)"
      using ComputedExecute_outcome(2) [OF v cr True sr] .
    then have "h1 = h2" using ret by simp
    then show ?thesis using stack_result_store(1) [OF sr] by simp
  qed
  then show "cd_codeIndex (computeds h1 cd) = codeIndex vm'"
    and "cd_Expr (computeds h1 cd) = cd_Expr (computeds h' cd)"
    by simp_all
qed

text \<open>
  Claim C5. The first \<open>ComputedExecute\<close> of a Computed value with no cached bytecode
  compiles and runs the expression with \<open>Run\<close> in the child frame, and stores the code and
  the code index of the child in the value before it looks at the result, so the cache is
  populated with whatever code the parser produced. Once the value holds code,
  \<open>ComputedExecute\<close> is the outcome of \<open>Evaluate\<close> on the child frame carrying the cached
  code and code index: the error of the child, or a clone of its stack top with the count
  written back. That outcome is the same whatever the compile entry \<open>Run\<close> is, so the
  parser is not invoked, for the second and every later evaluation, as long as the external
  interpreter leaves the cached value intact. (For the first evaluation the parser is taken
  to produce non-nil code and to leave the handle allocated and unchanged.)
\<close>

theorem bytecode_cache_reused:
  "(cells h v = \<lparr>TypeId = VMTypeComputedValue, Value = ComputedDataPtr cd\<rparr> \<longrightarrow>
    cd_code (computeds h cd) = None \<longrightarrow>
      ComputedExecute E ctx h v =
        (case Run E (cd_Expr (computeds h cd))
                 ((NewVM E)\<lparr>Flags := Flags ctx, subThreadDepth := subThreadDepth ctx + 1,
                           currentThis := Some v, NumOpCount := NumOpCount ctx + 200\<rparr>) h of
            None \<Rightarrow> None
          | Some (vm', h') \<Rightarrow>
              if Error vm' \<noteq> None
              then Some (None, ctx\<lparr>Error := Error vm'\<rparr>,
                         (h'\<lparr>computeds := (computeds h')
                          (cd := (computeds h' cd)\<lparr>cd_code := code vm',
                                                   cd_codeIndex := codeIndex vm'\<rparr>)\<rparr>))
              else (case stack_result vm'
                           (h'\<lparr>computeds := (computeds h')
                          (cd := (computeds h' cd)\<lparr>cd_code := code vm',
                                                   cd_codeIndex := codeIndex vm'\<rparr>)\<rparr>) of
                      None \<Rightarrow> None
                    | Some (ret, h2) \<Rightarrow>
                        Some (Some ret, ctx\<lparr>NumOpCount := NumOpCount vm'\<rparr>, h2)))) \<and>
   (cells h v = \<lparr>TypeId = VMTypeComputedValue, Value = ComputedDataPtr cd\<rparr> \<longrightarrow>
    cd_code (computeds h cd) = None \<longrightarrow>
    Run E (cd_Expr (computeds h cd)) (Computed_child E ctx v) h = Some (vm', h') \<longrightarrow>
    ComputedExecute E ctx h v = Some (res, ctx1, h1) \<longrightarrow>
      cd_code (computeds h1 cd) = code vm' \<and>
      cd_codeIndex (computeds h1 cd) = codeIndex vm' \<and>
      cd_Expr (computeds h1 cd) = cd_Expr (computeds h' cd) \<and>
      (code vm' \<noteq> None \<longrightarrow> cells h' v = cells h v \<longrightarrow> v < next_ptr h' \<longrightarrow>
       keeps_cached E v cd \<longrightarrow>
         cached h1 v cd \<and>
         executions (E\<lparr>Run := r\<rparr>) ctx1 h1 v n = executions E ctx1 h1 v n)) \<and>
   (cached h v cd \<longrightarrow>
      ComputedExecute E ctx h v =
        (case Evaluate E
                 ((NewVM E)\<lparr>Flags := Flags ctx, subThreadDepth := subThreadDepth ctx + 1,
                           currentThis := Some v, NumOpCount := NumOpCount ctx + 200,
                           code := cd_code (computeds h cd),
                           codeIndex := cd_codeIndex (computeds h cd)\<rparr>) h of
            None \<Rightarrow> None
          | Some (vm1, h1) \<Rightarrow>
              if Error vm1 \<noteq> None then Some (None, ctx\<lparr>Error := Error vm1\<rparr>, h1)
              else (case stack_result vm1 h1 of
                      None \<Rightarrow> None
                    | Some (ret, h2) \<Rightarrow>
                        Some (Some ret, ctx\<lparr>NumOpCount := NumOpCount vm1\<rparr>, h2))) \<and>
      Computed_run E vm h cd =
        Evaluate E (vm\<lparr>code := cd_code (computeds h cd),
                       codeIndex := cd_codeIndex (computeds h cd)\<rparr>) h \<and>
      ComputedExecute (E\<lparr>Run := r\<rparr>) ctx h v = ComputedExecute E ctx h v \<and>
      (keeps_cached E v cd \<longrightarrow>
         executions (E\<lparr>Run := r\<rparr>) ctx h v n = executions E ctx h v n))"
proof (intro conjI impI)
  assume v: "cells h v = \<lparr>TypeId = VMTypeComputedValue, Value = ComputedDataPtr cd\<rparr>"
     and nil: "cd_code (computeds h cd) = None"
  show "ComputedExecute E ctx h v =
        (case Run E (cd_Expr (computeds h cd))
                 ((NewVM E)\<lparr>Flags := Flags ctx, subThreadDepth := subThreadDepth ctx + 1,
                           currentThis := Some v, NumOpCount := NumOpCount ctx + 200\<rparr>) h of
            None \<Rightarrow> None
          | Some (vm', h') \<Rightarrow>
              if Error vm' \<noteq> None
              then Some (None, ctx\<lparr>Error := Error vm'\<rparr>,
                         (h'\<lparr>computeds := (computeds h')
                          (cd := (computeds h' cd)\<lparr>cd_code := code vm',
                                                   cd_codeIndex := codeIndex vm'\<rparr>)\<rparr>))
              else (case stack_result vm'
                           (h'\<lparr>computeds := (computeds h')
                          (cd := (computeds h' cd)\<lparr>cd_code := code vm',
                                                   cd_codeIndex := codeIndex vm'\<rparr>)\<rparr>) of
                      None \<Rightarrow> None
                    | Some (ret, h2) \<Rightarrow>
                        Some (Some ret, ctx\<lparr>NumOpCount := NumOpCount vm'\<rparr>, h2)))"
    using v nil by (rule ComputedExecute_miss)
  assume run: "Run E (cd_Expr (computeds h cd)) (Computed_child E ctx v) h = Some (vm', h')"
     and ret: "ComputedExecute E ctx h v = Some (res, ctx1, h1)"
  show "cd_code (computeds h1 cd) = code vm'"
    using v nil run ret by (rule first_execution_caches)
  show "cd_codeIndex (computeds h1 cd) = codeIndex vm'"
    using v nil run ret by (rule first_execution_caches_index(1))
  show "cd_Expr (computeds h1 cd) = cd_Expr (computeds h' cd)"
    using v nil run ret by (rule first_execution_caches_index(2))
  assume more: "code vm' \<noteq> None" "cells h' v = cells h v" "v < next_ptr h'"
     and k: "keeps_cached E v cd"
  show c1: "cached h1 v cd"
    using v nil run ret more by (rule first_execution_cached)
  show "executions (E\<lparr>Run := r\<rparr>) ctx1 h1 v n = executions E ctx1 h1 v n"
    using c1 k by (rule later_executions_ignore_Run)
next
  assume c: "cached h v cd"
  show "ComputedExecute E ctx h v =
        (case Evaluate E
                 ((NewVM E)\<lparr>Flags := Flags ctx, subThreadDepth := subThreadDepth ctx + 1,
                           currentThis := Some v, NumOpCount := NumOpCount ctx + 200,
                           code := cd_code (computeds h cd),
                           codeIndex := cd_codeIndex (computeds h cd)\<rparr>) h of
            None \<Rightarrow> None
          | Some (vm1, h1) \<Rightarrow>
              if Error vm1 \<noteq> None then Some (None, ctx\<lparr>Error := Error vm1\<rparr>, h1)
              else (case stack_result vm1 h1 of
                      None \<Rightarrow> None
                    | Some (ret, h2) \<Rightarrow>
                        Some (Some ret, ctx\<lparr>NumOpCount := NumOpCount vm1\<rparr>, h2)))"
    using c by (rule ComputedExecute_hit)
  have "cd_code (computeds h cd) \<noteq> None" using c by (simp add: cached_def)
  then show "Computed_run E vm h cd =
        Evaluate E (vm\<lparr>code := cd_code (computeds h cd),
                       codeIndex := cd_codeIndex (computeds h cd)\<rparr>) h"
    by (rule Computed_run_cached)
  show "ComputedExecute (E\<lparr>Run := r\<rparr>) ctx h v = ComputedExecute E ctx h v"
    using c by (rule cached_execution_ignores_Run)
  assume "keeps_cached E v cd"
  with c show "executions (E\<lparr>Run := r\<rparr>) ctx h v n = executions E ctx h v n"
    by (rule later_executions_ignore_Run)
qed

theorem bytecode_cache_reused_witness:
  "cd_code (computeds one_computed 1) = None \<and>
   cd_code (computeds (snd (snd (the (ComputedExecute literal_parser zero_Context one_computed 2)))) 1) = Some [] \<and>
   keeps_cached literal_parser 2 1 \<and>
   cached (snd (snd (the (ComputedExecute literal_parser zero_Context one_computed 2)))) 2 1 \<and>
   executions (literal_parser\<lparr>Run := \<lambda>e vm h. None\<rparr>) (fst (snd (the (ComputedExecute literal_parser zero_Context one_computed 2)))) (snd (snd (the (ComputedExecute literal_parser zero_Context one_computed 2)))) 2 2
     = executions literal_parser (fst (snd (the (ComputedExecute literal_parser zero_Context one_computed 2)))) (snd (snd (the (ComputedExecute literal_parser zero_Context one_computed 2)))) 2 2 \<and>
   result_value (ComputedExecute literal_parser zero_Context one_computed 2) = Some \<lparr>TypeId = VMTypeInt, Value = Int64Value 1\<rparr> \<and>
   result_value (ComputedExecute (literal_parser\<lparr>Run := \<lambda>e vm h. None\<rparr>)
                   (fst (snd (the (ComputedExecute literal_parser zero_Context one_computed 2)))) (snd (snd (the (ComputedExecute literal_parser zero_Context one_computed 2)))) 2)
     = Some \<lparr>TypeId = VMTypeInt, Value = Int64Value 1\<rparr> \<and>
   result_count (ComputedExecute (literal_parser\<lparr>Run := \<lambda>e vm h. None\<rparr>)
                   (fst (snd (the (ComputedExecute literal_parser zero_Context one_computed 2)))) (snd (snd (the (ComputedExecute literal_parser zero_Context one_computed 2)))) 2)
     = Some 400"
  using bytecode_cache_reused
          [of one_computed 2 1 literal_parser zero_Context
              "fst (the (Run literal_parser ''x+1'' (Computed_child literal_parser zero_Context 2) one_computed))" "snd (the (Run literal_parser ''x+1'' (Computed_child literal_parser zero_Context 2) one_computed))"
              "fst (the (ComputedExecute literal_parser zero_Context one_computed 2))" "fst (snd (the (ComputedExecute literal_parser zero_Context one_computed 2)))" "snd (snd (the (ComputedExecute literal_parser zero_Context one_computed 2)))"
              "\<lambda>e vm h. None" 2]
        bytecode_cache_reused
          [of "snd (snd (the (ComputedExecute literal_parser zero_Context one_computed 2)))" 2 1 "literal_parser\<lparr>Run := \<lambda>e vm h. None\<rparr>"
              "fst (snd (the (ComputedExecute literal_parser zero_Context one_computed 2)))"]
  by (simp add: one_computed_cells ComputedExecute_def ReadComputed_def Computed_run_def
        Computed_child_def stack_result_def go_index_def literal_parser_def zero_Context_def
        new_cell_def keeps_cached_def cached_def result_value_def result_count_def)

end
